theory Spec2Isabelle
  imports Main "HOL-Library.Char_ord" "HOL-Library.List_Lexorder"
begin

section \<open>The level converter of \<^verbatim>\<open>convert_levels.py\<close>\<close>

text \<open>
  The development embeds \<^verbatim>\<open>convert_level\<close> and the loop of \<^verbatim>\<open>main\<close> as HOL
  functions.  Python integers are \<^typ>\<open>int\<close>; indices produced by \<^verbatim>\<open>enumerate\<close> are
  \<^typ>\<open>nat\<close>; strings are \<^typ>\<open>string\<close>.  Every \<^verbatim>\<open>raise\<close> of the source and every
  failing subscript is a value \<open>Inl e\<close> of the result type \<open>error + 'a\<close>.
\<close>

subsection \<open>Errors and input data\<close>

datatype error =
    ValueError string
  | KeyError_str string
  | KeyError_int int
  | IndexError
  | OSError string

text \<open>A car of the JSON document: the keys \<^verbatim>\<open>type\<close>, \<^verbatim>\<open>pos\<close>, \<^verbatim>\<open>direction\<close>.\<close>

record car =
  car_type :: string
  pos :: "int \<times> int"
  direction :: string

text \<open>
  A level of the JSON document.  The record is extensible: its \<open>more\<close> part stands for
  the further keys a level dictionary may carry, which the converter never reads.
\<close>

record level =
  board :: "int list list"
  mods :: "int list list"
  mod_nums :: "int list list"
  cars :: "car list"
  tracks :: int

subsection \<open>Dictionaries and the translation tables\<close>

text \<open>
  A Python dict literal is an association list.  \<open>dict_get\<close> is \<^verbatim>\<open>d.get(k)\<close> for a
  table whose values may be \<^verbatim>\<open>None\<close>: an absent key and a key mapped to \<^verbatim>\<open>None\<close> both give
  \<open>None\<close>.  \<open>dict_index\<close> is \<^verbatim>\<open>d[k]\<close>, which raises \<^verbatim>\<open>KeyError\<close> on an absent key.
  \<open>dict_mem\<close> is \<^verbatim>\<open>k in d\<close>.
\<close>

definition dict_get :: "('k \<times> 'v option) list \<Rightarrow> 'k \<Rightarrow> 'v option" where
  "dict_get d k = (case map_of d k of None \<Rightarrow> None | Some v \<Rightarrow> v)"

definition dict_index :: "('k \<Rightarrow> error) \<Rightarrow> ('k \<times> 'v) list \<Rightarrow> 'k \<Rightarrow> error + 'v" where
  "dict_index err d k = (case map_of d k of None \<Rightarrow> Inl (err k) | Some v \<Rightarrow> Inr v)"

definition dict_mem :: "'k \<Rightarrow> ('k \<times> 'v) list \<Rightarrow> bool" where
  "dict_mem k d = (map_of d k \<noteq> None)"

definition BOARD_TO_TRACK :: "(int \<times> string option) list" where
  "BOARD_TO_TRACK =
    [(0, None),
     (1, Some ''STRAIGHT_RL''),
     (2, Some ''STRAIGHT_TD''),
     (3, Some ''STRAIGHT_RL''),
     (4, Some ''ROCK''),
     (5, Some ''CORNER_DR''),
     (6, Some ''CORNER_DL''),
     (7, Some ''CORNER_TR''),
     (8, Some ''CORNER_TL''),
     (9, Some ''SWITCH_L_R_D''),
     (10, Some ''SWITCH_T_D_R''),
     (11, Some ''SWITCH_L_R_D''),
     (12, Some ''SWITCH_T_D_L''),
     (13, Some ''SWITCH_L_R_T''),
     (14, Some ''SWITCH_D_T_R''),
     (15, Some ''SWITCH_R_L_T''),
     (16, Some ''SWITCH_D_T_L''),
     (17, Some ''TUNNEL_L''),
     (18, Some ''TUNNEL_R''),
     (19, Some ''TUNNEL_D''),
     (20, Some ''TUNNEL_T''),
     (21, Some ''STRAIGHT_RL''),
     (22, Some ''STRAIGHT_RL''),
     (29, Some ''STRAIGHT_RL''),
     (30, Some ''STRAIGHT_TD''),
     (31, Some ''STRAIGHT_TD''),
     (34, Some ''ROCK''),
     (35, Some ''ROCK''),
     (36, Some ''ROCK''),
     (37, Some ''ROCK'')]"

definition MOD_SWITCH :: int where "MOD_SWITCH = 1"
definition MOD_TUNNEL :: int where "MOD_TUNNEL = 2"
definition MOD_CLOSED_GATE :: int where "MOD_CLOSED_GATE = 3"
definition MOD_OPEN_GATE :: int where "MOD_OPEN_GATE = 4"
definition MOD_SWAPPING_TRACK :: int where "MOD_SWAPPING_TRACK = 5"
definition MOD_STATION :: int where "MOD_STATION = 6"
definition MOD_SWITCH_RAIL :: int where "MOD_SWITCH_RAIL = 7"
definition MOD_STARTING_CAR :: int where "MOD_STARTING_CAR = 10"

definition DIRECTION_MAP :: "(string \<times> string) list" where
  "DIRECTION_MAP =
    [(''RIGHT'', ''RIGHT''),
     (''LEFT'', ''LEFT''),
     (''UP'', ''TOP''),
     (''DOWN'', ''DOWN'')]"

definition TUNNEL_DIR :: "(int \<times> string) list" where
  "TUNNEL_DIR =
    [(17, ''LEFT''),
     (18, ''RIGHT''),
     (19, ''DOWN''),
     (20, ''TOP'')]"

subsection \<open>Strings, subscripts and loops\<close>

text \<open>\<^verbatim>\<open>s.startswith(p)\<close>.\<close>

definition startswith :: "string \<Rightarrow> string \<Rightarrow> bool" where
  "startswith s p = (take (length p) s = p)"

text \<open>
  \<^verbatim>\<open>s.replace(old, new)\<close> for a non-empty \<open>old\<close>: the occurrences of \<open>old\<close> are replaced
  from left to right, without overlap.  The counter of \<open>replace_from\<close> is the number of
  characters of a matched occurrence that are still to be skipped.
\<close>

fun replace_from :: "string \<Rightarrow> string \<Rightarrow> nat \<Rightarrow> string \<Rightarrow> string" where
  "replace_from old new k [] = []"
| "replace_from old new (Suc k) (c # cs) = replace_from old new k cs"
| "replace_from old new 0 (c # cs) =
     (if take (length old) (c # cs) = old
      then new @ replace_from old new (length old - 1) cs
      else c # replace_from old new 0 cs)"

definition replace :: "string \<Rightarrow> string \<Rightarrow> string \<Rightarrow> string" where
  "replace s old new = replace_from old new 0 s"

text \<open>The decimal text of an integer, as an f-string or \<^verbatim>\<open>str\<close> prints it.\<close>

definition digit_char :: "nat \<Rightarrow> char" where
  "digit_char d = char_of (48 + d)"

function str_nat :: "nat \<Rightarrow> string" where
  "str_nat n = (if n < 10 then [digit_char n] else str_nat (n div 10) @ [digit_char (n mod 10)])"
  by pat_completeness auto
termination
  by (relation "measure id") auto

declare str_nat.simps [simp del]

definition str_int :: "int \<Rightarrow> string" where
  "str_int i = (if i < 0 then CHR ''-'' # str_nat (nat (- i)) else str_nat (nat i))"

text \<open>\<^verbatim>\<open>str(b).lower()\<close> for a Boolean \<open>b\<close>.\<close>

definition str_bool_lower :: "bool \<Rightarrow> string" where
  "str_bool_lower b = (if b then ''true'' else ''false'')"

text \<open>\<^verbatim>\<open>sep.join(xs)\<close>.\<close>

fun join :: "string \<Rightarrow> string list \<Rightarrow> string" where
  "join sep [] = []"
| "join sep [x] = x"
| "join sep (x # y # ys) = x @ sep @ join sep (y # ys)"

text \<open>
  \<^verbatim>\<open>grid[r][c]\<close> for indices that are never negative: \<^verbatim>\<open>IndexError\<close> when the row or the
  column does not exist.
\<close>

definition get2 :: "'a list list \<Rightarrow> nat \<Rightarrow> nat \<Rightarrow> error + 'a" where
  "get2 grid r c =
     (if r < length grid
      then (if c < length (grid ! r) then Inr (grid ! r ! c) else Inl IndexError)
      else Inl IndexError)"

text \<open>
  A \<^verbatim>\<open>for\<close> loop whose body updates accumulators and may raise: the first error ends
  the loop.
\<close>

fun for_each :: "('a \<Rightarrow> 's \<Rightarrow> error + 's) \<Rightarrow> 'a list \<Rightarrow> 's \<Rightarrow> error + 's" where
  "for_each body [] s = Inr s"
| "for_each body (x # xs) s =
     (case body x s of Inl e \<Rightarrow> Inl e | Inr s' \<Rightarrow> for_each body xs s')"

text \<open>
  The nested scan \<^verbatim>\<open>for r, row in enumerate(grid): for c, v in enumerate(row): ...\<close>.
\<close>

definition for_cells ::
  "(nat \<Rightarrow> nat \<times> 'a \<Rightarrow> 's \<Rightarrow> error + 's) \<Rightarrow> 'a list list \<Rightarrow> 's \<Rightarrow> error + 's" where
  "for_cells body grid s =
     for_each (\<lambda>(r, row). for_each (body r) (List.enumerate 0 row)) (List.enumerate 0 grid) s"

subsection \<open>The passes of \<^verbatim>\<open>convert_level\<close>\<close>

text \<open>Finding the target: the inner loop stops at the first \<open>3\<close>, the outer at the first hit.\<close>

fun find_in_row :: "nat \<Rightarrow> (nat \<times> int) list \<Rightarrow> (nat \<times> nat) option" where
  "find_in_row r [] = None"
| "find_in_row r ((c, val) # rest) =
     (if val = 3 then Some (r + 1, c + 1) else find_in_row r rest)"

fun find_in_rows :: "(nat \<times> int list) list \<Rightarrow> (nat \<times> nat) option" where
  "find_in_rows [] = None"
| "find_in_rows ((r, row) # rest) =
     (case find_in_row r (List.enumerate 0 row) of
        Some target \<Rightarrow> Some target
      | None \<Rightarrow> find_in_rows rest)"

definition find_target :: "int list list \<Rightarrow> (nat \<times> nat) option" where
  "find_target b = find_in_rows (List.enumerate 0 b)"

text \<open>Trains and decoys.\<close>

type_synonym train = "int \<times> int \<times> string"

definition car_step :: "car \<Rightarrow> train list \<times> train list \<Rightarrow> error + train list \<times> train list" where
  "car_step car acc =
     (case acc of (trains, decoys) \<Rightarrow>
        if car_type car = ''NORMAL'' then
          (case pos car of (r, c) \<Rightarrow>
             case dict_index KeyError_str DIRECTION_MAP (direction car) of
               Inl e \<Rightarrow> Inl e
             | Inr d \<Rightarrow> Inr (trains @ [(r + 1, c + 1, d)], decoys))
        else if car_type car = ''DECOY'' then
          (case pos car of (r, c) \<Rightarrow>
             case dict_index KeyError_str DIRECTION_MAP (direction car) of
               Inl e \<Rightarrow> Inl e
             | Inr d \<Rightarrow> Inr (trains, decoys @ [(r + 1, c + 1, d)]))
        else Inr acc)"

definition collect_cars :: "car list \<Rightarrow> error + train list \<times> train list" where
  "collect_cars cs = for_each car_step cs ([], [])"

text \<open>Initial pieces and toggled switches.\<close>

type_synonym piece = "nat \<times> nat \<times> string"
type_synonym tagged = "nat \<times> nat \<times> int"

definition init_cell ::
  "int list list \<Rightarrow> int list list \<Rightarrow> nat \<Rightarrow> nat \<times> int \<Rightarrow>
   piece list \<times> tagged list \<Rightarrow> error + piece list \<times> tagged list" where
  "init_cell ms mns r cv acc =
     (case cv of (c, board_val) \<Rightarrow>
      case acc of (init_pos, dswitches) \<Rightarrow>
      case get2 ms r c of
        Inl e \<Rightarrow> Inl e
      | Inr mod_val \<Rightarrow>
          if mod_val = MOD_TUNNEL then Inr acc
          else
            (case dict_get BOARD_TO_TRACK board_val of
               None \<Rightarrow> Inr acc
             | Some track_type \<Rightarrow>
                 let is_dswitch = (mod_val = MOD_SWAPPING_TRACK);
                     is_eswitch = (mod_val = MOD_SWITCH_RAIL)
                 in
                   if (is_dswitch \<or> is_eswitch) \<and> startswith track_type ''SWITCH_'' then
                     (let track_type' =
                            (if is_dswitch then replace track_type ''SWITCH_'' ''DSWITCH_''
                             else replace track_type ''SWITCH_'' ''ESWITCH_'')
                      in case get2 mns r c of
                           Inl e \<Rightarrow> Inl e
                         | Inr mod_num \<Rightarrow>
                             Inr (init_pos @ [(r + 1, c + 1, track_type')],
                                  if mod_num > 0 then dswitches @ [(r + 1, c + 1, mod_num)]
                                  else dswitches))
                   else Inr (init_pos @ [(r + 1, c + 1, track_type)], dswitches)))"

definition collect_init ::
  "int list list \<Rightarrow> int list list \<Rightarrow> int list list \<Rightarrow> error + piece list \<times> tagged list" where
  "collect_init b ms mns = for_cells (init_cell ms mns) b ([], [])"

text \<open>
  Tunnel endpoints.  The dictionary \<^verbatim>\<open>tunnel_endpoints\<close> keeps its keys in insertion
  order; \<open>add_endpoint\<close> is the creation of the empty list for a new key followed by the
  \<^verbatim>\<open>append\<close>.
\<close>

type_synonym endpoint = "(nat \<times> nat) \<times> int"
type_synonym tunnel_pair = "nat \<times> nat \<times> string \<times> nat \<times> nat \<times> string"

fun add_endpoint :: "int \<Rightarrow> endpoint \<Rightarrow> (int \<times> endpoint list) list \<Rightarrow> (int \<times> endpoint list) list" where
  "add_endpoint k e [] = [(k, [e])]"
| "add_endpoint k e ((k', es) # rest) =
     (if k = k' then (k', es @ [e]) # rest else (k', es) # add_endpoint k e rest)"

definition tunnel_cell ::
  "int list list \<Rightarrow> int list list \<Rightarrow> nat \<Rightarrow> nat \<times> int \<Rightarrow>
   (int \<times> endpoint list) list \<Rightarrow> error + (int \<times> endpoint list) list" where
  "tunnel_cell ms mns r cv tunnel_endpoints =
     (case cv of (c, board_val) \<Rightarrow>
      case get2 ms r c of
        Inl e \<Rightarrow> Inl e
      | Inr mod_val \<Rightarrow>
          if mod_val = MOD_TUNNEL \<and> dict_mem board_val TUNNEL_DIR then
            (case get2 mns r c of
               Inl e \<Rightarrow> Inl e
             | Inr tunnel_num \<Rightarrow>
                 Inr (add_endpoint tunnel_num ((r + 1, c + 1), board_val) tunnel_endpoints))
          else Inr tunnel_endpoints)"

definition collect_endpoints ::
  "int list list \<Rightarrow> int list list \<Rightarrow> int list list \<Rightarrow> error + (int \<times> endpoint list) list" where
  "collect_endpoints b ms mns = for_cells (tunnel_cell ms mns) b []"

definition pair_step ::
  "(int \<times> endpoint list) list \<Rightarrow> int \<Rightarrow> tunnel_pair list \<Rightarrow> error + tunnel_pair list" where
  "pair_step tunnel_endpoints tunnel_num tunnel_pairs =
     (case dict_index KeyError_int tunnel_endpoints tunnel_num of
        Inl e \<Rightarrow> Inl e
      | Inr endpoints \<Rightarrow>
          if length endpoints = 2 then
            (case endpoints ! 0 of ((r1, c1), val1) \<Rightarrow>
             case endpoints ! 1 of ((r2, c2), val2) \<Rightarrow>
             case dict_index KeyError_int TUNNEL_DIR val1 of
               Inl e \<Rightarrow> Inl e
             | Inr exit_dir_A \<Rightarrow>
                 (case dict_index KeyError_int TUNNEL_DIR val2 of
                    Inl e \<Rightarrow> Inl e
                  | Inr exit_dir_B \<Rightarrow>
                      Inr (tunnel_pairs @ [(r1, c1, exit_dir_A, r2, c2, exit_dir_B)])))
          else Inr tunnel_pairs)"

definition pair_tunnels :: "(int \<times> endpoint list) list \<Rightarrow> error + tunnel_pair list" where
  "pair_tunnels tunnel_endpoints =
     for_each (pair_step tunnel_endpoints) (sort (map fst tunnel_endpoints)) []"

text \<open>Gates and activations; stations.  Both scans run over \<^verbatim>\<open>mods\<close>.\<close>

type_synonym gate = "nat \<times> nat \<times> int \<times> string"

definition gate_cell ::
  "int list list \<Rightarrow> nat \<Rightarrow> nat \<times> int \<Rightarrow> gate list \<times> tagged list \<Rightarrow>
   error + gate list \<times> tagged list" where
  "gate_cell mns r cv acc =
     (case cv of (c, mod_val) \<Rightarrow>
      case acc of (gates, activations) \<Rightarrow>
      case get2 mns r c of
        Inl e \<Rightarrow> Inl e
      | Inr mod_num \<Rightarrow>
          if mod_val = MOD_CLOSED_GATE \<or> mod_val = MOD_OPEN_GATE then
            Inr (gates @ [(r + 1, c + 1, mod_num, str_bool_lower (mod_val = MOD_OPEN_GATE))],
                 activations)
          else if mod_val = MOD_SWITCH \<and> mod_num > 0 then
            Inr (gates, activations @ [(r + 1, c + 1, mod_num)])
          else Inr acc)"

definition collect_gates ::
  "int list list \<Rightarrow> int list list \<Rightarrow> error + gate list \<times> tagged list" where
  "collect_gates ms mns = for_cells (gate_cell mns) ms ([], [])"

definition station_cell ::
  "int list list \<Rightarrow> nat \<Rightarrow> nat \<times> int \<Rightarrow> tagged list \<Rightarrow> error + tagged list" where
  "station_cell mns r cv stations =
     (case cv of (c, mod_val) \<Rightarrow>
        if mod_val = MOD_STATION then
          (case get2 mns r c of
             Inl e \<Rightarrow> Inl e
           | Inr n \<Rightarrow> Inr (stations @ [(r + 1, c + 1, n + 1)]))
        else Inr stations)"

definition collect_stations :: "int list list \<Rightarrow> int list list \<Rightarrow> error + tagged list" where
  "collect_stations ms mns = for_cells (station_cell mns) ms []"

subsection \<open>The collected data and its text\<close>

record dzn =
  W :: nat
  H :: nat
  max_tracks :: int
  target :: "nat \<times> nat"
  trains :: "train list"
  decoys :: "train list"
  init_pos :: "piece list"
  tunnel_pairs :: "tunnel_pair list"
  gates :: "gate list"
  activations :: "tagged list"
  dswitches :: "tagged list"
  stations :: "tagged list"

text \<open>
  \<open>convert_data\<close> is lines 113 to 223 of the source, in that order: the first pass that
  raises decides the error.
\<close>

definition convert_data :: "string \<Rightarrow> 'a level_scheme \<Rightarrow> error + dzn" where
  "convert_data level_name level_data =
     (let b = board level_data; ms = mods level_data; mns = mod_nums level_data;
          h = length b;
          w = (if h > 0 then length (b ! 0) else 0)
      in
      case find_target b of
        None \<Rightarrow> Inl (ValueError (''No target found for level '' @ level_name))
      | Some tg \<Rightarrow>
      case collect_cars (cars level_data) of
        Inl e \<Rightarrow> Inl e
      | Inr (tr, de) \<Rightarrow>
      case collect_init b ms mns of
        Inl e \<Rightarrow> Inl e
      | Inr (ip, ds) \<Rightarrow>
      case collect_endpoints b ms mns of
        Inl e \<Rightarrow> Inl e
      | Inr eps \<Rightarrow>
      case pair_tunnels eps of
        Inl e \<Rightarrow> Inl e
      | Inr tp \<Rightarrow>
      case collect_gates ms mns of
        Inl e \<Rightarrow> Inl e
      | Inr (ga, ac) \<Rightarrow>
      case collect_stations ms mns of
        Inl e \<Rightarrow> Inl e
      | Inr st \<Rightarrow>
          Inr \<lparr>W = w, H = h, max_tracks = tracks level_data, target = tg,
               trains = tr, decoys = de, init_pos = ip, tunnel_pairs = tp,
               gates = ga, activations = ac, dswitches = ds, stations = st\<rparr>)"

text \<open>The lines of the output, lines 226 to 303 of the source.\<close>

definition fmt_train :: "train \<Rightarrow> string" where
  "fmt_train t = (case t of (r, c, d) \<Rightarrow>
     ''('' @ str_int r @ '','' @ str_int c @ '','' @ d @ '')'')"

definition fmt_piece :: "piece \<Rightarrow> string" where
  "fmt_piece p = (case p of (r, c, track) \<Rightarrow>
     ''('' @ str_nat r @ '','' @ str_nat c @ '','' @ track @ ''),'')"

definition fmt_tunnel :: "tunnel_pair \<Rightarrow> string" where
  "fmt_tunnel p = (case p of (r1, c1, entry, r2, c2, exit_dir) \<Rightarrow>
     ''  ('' @ str_nat r1 @ '', '' @ str_nat c1 @ '', '' @ entry @ '', '' @
     str_nat r2 @ '', '' @ str_nat c2 @ '', '' @ exit_dir @ ''),'')"

definition fmt_gate :: "gate \<Rightarrow> string" where
  "fmt_gate g = (case g of (r, c, num, is_open) \<Rightarrow>
     ''('' @ str_nat r @ '','' @ str_nat c @ '','' @ str_int num @ '','' @ is_open @ ''),'')"

definition fmt_tagged :: "tagged \<Rightarrow> string" where
  "fmt_tagged t = (case t of (r, c, num) \<Rightarrow>
     ''('' @ str_nat r @ '','' @ str_nat c @ '','' @ str_int num @ ''),'')"

definition fmt_station :: "tagged \<Rightarrow> string" where
  "fmt_station t = (case t of (r, c, train_id) \<Rightarrow>
     ''  ('' @ str_nat r @ '','' @ str_nat c @ '','' @ str_int train_id @ ''),'')"

definition inline_list :: "string \<Rightarrow> string list \<Rightarrow> string list" where
  "inline_list name items =
     (if items \<noteq> [] then [name @ ''=['' @ join '','' items @ ''];'']
      else [name @ ''=[];''])"

definition block_list :: "string \<Rightarrow> string list \<Rightarrow> string list" where
  "block_list name items =
     (if items \<noteq> [] then [name @ ''=[''] @ items @ [''];'']
      else [name @ ''=[];''])"

definition dzn_lines :: "dzn \<Rightarrow> string list" where
  "dzn_lines d =
     [''W='' @ str_nat (W d) @ '';'',
      ''H='' @ str_nat (H d) @ '';'',
      '''',
      ''MAX_TIME=W*H;'',
      ''MAX_TRACKS='' @ str_int (max_tracks d) @ '';'',
      '''',
      ''TARGET=('' @ str_nat (fst (target d)) @ '','' @ str_nat (snd (target d)) @ '');'',
      '''']
     @ inline_list ''TRAINS'' (map fmt_train (trains d))
     @ inline_list ''DECOYS'' (map fmt_train (decoys d))
     @ ['''']
     @ block_list ''INIT_POS'' (map fmt_piece (init_pos d))
     @ block_list ''TUNNEL_PAIRS'' (map fmt_tunnel (tunnel_pairs d))
     @ ['''']
     @ block_list ''GATES'' (map fmt_gate (gates d))
     @ block_list ''ACTIVATIONS'' (map fmt_tagged (activations d))
     @ ['''']
     @ block_list ''DSWITCHES'' (map fmt_tagged (dswitches d))
     @ block_list ''STATIONS'' (map fmt_station (stations d))"

definition render :: "dzn \<Rightarrow> string" where
  "render d = join [CHR 0x0A] (dzn_lines d) @ [CHR 0x0A]"

definition convert_level :: "string \<Rightarrow> 'a level_scheme \<Rightarrow> error + string" where
  "convert_level level_name level_data =
     (case convert_data level_name level_data of
        Inl e \<Rightarrow> Inl e
      | Inr d \<Rightarrow> Inr (render d))"

subsection \<open>The loop of \<^verbatim>\<open>main\<close>\<close>

text \<open>
  The loop works on the file system through \<^verbatim>\<open>pathlib\<close>.  What \<^verbatim>\<open>pathlib\<close> and
  the operating system do is not part of the source, so it is a parameter of the model:
  a record of the four operations the loop calls, over any type of paths and any type
  of file-system states.  Every operation may raise, and \<^verbatim>\<open>mkdir\<close> and
  \<^verbatim>\<open>write_text\<close> return the file system they leave behind also when they raise.
\<close>

record ('p, 'fs) file_ops =
  path_div :: "'p \<Rightarrow> string \<Rightarrow> 'p"
  mkdir :: "'p \<Rightarrow> 'fs \<Rightarrow> (error + unit) \<times> 'fs"
  path_exists :: "'p \<Rightarrow> 'fs \<Rightarrow> error + bool"
  write_text :: "'p \<Rightarrow> string \<Rightarrow> 'fs \<Rightarrow> (error + unit) \<times> 'fs"

text \<open>
  The command-line arguments the loop reads, and the state it changes: the file system,
  the three counters, the lines printed to the standard output and the failures printed
  to the standard error (a failure is kept as the level's name with the exception, not
  as the printed text).
\<close>

record 'p args =
  force :: bool
  output_dir :: 'p
  level_prefix :: "string option"

record 'fs run_state =
  fs :: 'fs
  converted :: nat
  skipped_prefix :: nat
  skipped_existing :: nat
  stdout :: "string list"
  stderr :: "(string \<times> error) list"

text \<open>\<^verbatim>\<open>level_name.split("-")[0]\<close>.\<close>

definition world_of :: "string \<Rightarrow> string" where
  "world_of level_name = takeWhile (\<lambda>ch. ch \<noteq> CHR ''-'') level_name"

text \<open>\<^verbatim>\<open>args.level_prefix and not level_name.startswith(args.level_prefix)\<close>.\<close>

definition prefix_mismatch :: "'p args \<Rightarrow> string \<Rightarrow> bool" where
  "prefix_mismatch a level_name =
     (case level_prefix a of
        None \<Rightarrow> False
      | Some p \<Rightarrow> p \<noteq> [] \<and> \<not> startswith level_name p)"

text \<open>
  One iteration of the loop, lines 369 to 395 of the source.  Every exception raised
  inside the \<^verbatim>\<open>try\<close> block ends the iteration with one line on the standard error;
  \<^verbatim>\<open>exists\<close> is only called when \<^verbatim>\<open>--force\<close> is not given.
\<close>

definition process_level ::
  "('p, 'fs) file_ops \<Rightarrow> 'p args \<Rightarrow> string \<times> 'a level_scheme \<Rightarrow>
   'fs run_state \<Rightarrow> 'fs run_state" where
  "process_level ops a item st =
     (case item of (level_name, level_data) \<Rightarrow>
        if startswith level_name ''#'' then st
        else if prefix_mismatch a level_name then
          st\<lparr>skipped_prefix := skipped_prefix st + 1\<rparr>
        else
          (let world = world_of level_name;
               out_dir = path_div ops (output_dir a) world
           in case mkdir ops out_dir (fs st) of
                (Inl e, fs1) \<Rightarrow> st\<lparr>fs := fs1, stderr := stderr st @ [(level_name, e)]\<rparr>
              | (Inr u, fs1) \<Rightarrow>
                  (let st1 = st\<lparr>fs := fs1\<rparr>;
                       output_path = path_div ops out_dir (level_name @ ''.dzn'')
                   in case (if force a then Inr False else path_exists ops output_path fs1) of
                        Inl e \<Rightarrow> st1\<lparr>stderr := stderr st1 @ [(level_name, e)]\<rparr>
                      | Inr True \<Rightarrow> st1\<lparr>skipped_existing := skipped_existing st1 + 1\<rparr>
                      | Inr False \<Rightarrow>
                          (case convert_level level_name level_data of
                             Inl e \<Rightarrow> st1\<lparr>stderr := stderr st1 @ [(level_name, e)]\<rparr>
                           | Inr dzn_content \<Rightarrow>
                               (case write_text ops output_path dzn_content fs1 of
                                  (Inl e, fs2) \<Rightarrow>
                                    st1\<lparr>fs := fs2, stderr := stderr st1 @ [(level_name, e)]\<rparr>
                                | (Inr u', fs2) \<Rightarrow>
                                    (let st2 = st1\<lparr>fs := fs2, converted := converted st1 + 1\<rparr>
                                     in if converted st2 > 0 \<and> converted st2 mod 10 = 0
                                        then st2\<lparr>stdout := stdout st2 @
                                          [''  Converted '' @ str_nat (converted st2) @
                                           '' levels...'']\<rparr>
                                        else st2))))))"

text \<open>The loop over a sequence of levels, and over the sorted items of the document.\<close>

definition run_levels ::
  "('p, 'fs) file_ops \<Rightarrow> 'p args \<Rightarrow> (string \<times> 'a level_scheme) list \<Rightarrow>
   'fs run_state \<Rightarrow> 'fs run_state" where
  "run_levels ops a items st = foldl (\<lambda>s item. process_level ops a item s) st items"

definition main_loop ::
  "('p, 'fs) file_ops \<Rightarrow> 'p args \<Rightarrow> (string \<times> 'a level_scheme) list \<Rightarrow>
   'fs run_state \<Rightarrow> 'fs run_state" where
  "main_loop ops a levels st = run_levels ops a (sort_key fst levels) st"


subsection \<open>Descriptions used by the statements\<close>

definition cells :: "'a list list \<Rightarrow> (nat \<times> nat \<times> 'a) list" where
  "cells grid = concat (map (\<lambda>(r, row). map (Pair r) (List.enumerate 0 row)) (List.enumerate 0 grid))"

definition has_target :: "int list list \<Rightarrow> bool" where
  "has_target b = (3 \<in> set (concat b))"

definition first_target_cell :: "int list list \<Rightarrow> nat \<Rightarrow> nat \<Rightarrow> bool" where
  "first_target_cell b r c =
     (r < length b \<and> c < length (b ! r) \<and> b ! r ! c = 3 \<and>
      3 \<notin> set (concat (take r b)) \<and> 3 \<notin> set (take c (b ! r)))"


text \<open>
  The record of a car, the translation of its direction, and the cars whose direction
  the converter looks up.
\<close>

definition translate_direction :: "string \<Rightarrow> string" where
  "translate_direction d = (if d = ''UP'' then ''TOP'' else d)"

definition known_direction :: "string \<Rightarrow> bool" where
  "known_direction d = (d = ''RIGHT'' \<or> d = ''LEFT'' \<or> d = ''UP'' \<or> d = ''DOWN'')"

definition car_record :: "car \<Rightarrow> train" where
  "car_record c = (fst (pos c) + 1, snd (pos c) + 1, translate_direction (direction c))"

definition is_normal :: "car \<Rightarrow> bool" where
  "is_normal c = (car_type c = ''NORMAL'')"

definition is_decoy :: "car \<Rightarrow> bool" where
  "is_decoy c = (car_type c = ''DECOY'')"

definition bad_car :: "car \<Rightarrow> bool" where
  "bad_car c = ((is_normal c \<or> is_decoy c) \<and> \<not> known_direction (direction c))"

text \<open>
  The directory and the file of a level, and the levels whose conversion \<^verbatim>\<open>main\<close>
  reaches: the name is not commented out, it passes the prefix filter, the directory
  was made, and the output is forced or found not to exist.
\<close>

definition out_dir_of :: "('p, 'fs) file_ops \<Rightarrow> 'p args \<Rightarrow> string \<Rightarrow> 'p" where
  "out_dir_of ops a level_name = path_div ops (output_dir a) (world_of level_name)"

definition output_path_of :: "('p, 'fs) file_ops \<Rightarrow> 'p args \<Rightarrow> string \<Rightarrow> 'p" where
  "output_path_of ops a level_name =
     path_div ops (out_dir_of ops a level_name) (level_name @ ''.dzn'')"

definition reaches_conversion ::
  "('p, 'fs) file_ops \<Rightarrow> 'p args \<Rightarrow> string \<Rightarrow> 'fs run_state \<Rightarrow> bool" where
  "reaches_conversion ops a level_name st =
     (\<not> startswith level_name ''#'' \<and> \<not> prefix_mismatch a level_name \<and>
      fst (mkdir ops (out_dir_of ops a level_name) (fs st)) = Inr () \<and>
      (force a \<or>
       path_exists ops (output_path_of ops a level_name)
         (snd (mkdir ops (out_dir_of ops a level_name) (fs st))) = Inr False))"


subsection \<open>Concrete levels\<close>

text \<open>A board with three target cells; the first in scanning order is row 1, column 1.\<close>

definition level_two_targets :: level where
  "level_two_targets =
     \<lparr>board = [[0, 1], [1, 3], [3, 3]], mods = [[0, 0], [0, 0], [0, 0]],
      mod_nums = [[0, 0], [0, 0], [0, 0]], cars = [], tracks = 2\<rparr>"

text \<open>
  Four cars: two trains, one decoy and one car of another kind, whose direction is not
  a direction of the table.
\<close>

definition level_cars :: level where
  "level_cars =
     \<lparr>board = [[1, 1], [1, 3], [1, 1]], mods = [[0, 0], [0, 0], [0, 0]],
      mod_nums = [[0, 0], [0, 0], [0, 0]],
      cars = [\<lparr>car_type = ''NORMAL'', pos = (0, 1), direction = ''UP''\<rparr>,
              \<lparr>car_type = ''DECOY'', pos = (2, 0), direction = ''LEFT''\<rparr>,
              \<lparr>car_type = ''GHOST'', pos = (1, 0), direction = ''SIDEWAYS''\<rparr>,
              \<lparr>car_type = ''NORMAL'', pos = (1, 1), direction = ''DOWN''\<rparr>],
      tracks = 3\<rparr>"

text \<open>The same board with a decoy whose direction is not in the table.\<close>

definition level_bad_direction :: level where
  "level_bad_direction =
     \<lparr>board = [[1, 1], [1, 3], [1, 1]], mods = [[0, 0], [0, 0], [0, 0]],
      mod_nums = [[0, 0], [0, 0], [0, 0]],
      cars = [\<lparr>car_type = ''NORMAL'', pos = (0, 1), direction = ''UP''\<rparr>,
              \<lparr>car_type = ''DECOY'', pos = (2, 0), direction = ''NORTH''\<rparr>],
      tracks = 3\<rparr>"

text \<open>The same cars problem on a board without target cell.\<close>

definition level_no_target_bad_direction :: level where
  "level_no_target_bad_direction =
     \<lparr>board = [[1, 1]], mods = [[0, 0]], mod_nums = [[0, 0]],
      cars = [\<lparr>car_type = ''NORMAL'', pos = (0, 0), direction = ''NORTH''\<rparr>],
      tracks = 1\<rparr>"

text \<open>
  A row with a code mapped to no piece (0), a code without entry in the table (23) and
  the target.
\<close>

definition level_skipped_codes :: level where
  "level_skipped_codes =
     \<lparr>board = [[0, 23, 3]], mods = [[0, 0, 0]], mod_nums = [[0, 0, 0]],
      cars = [], tracks = 1\<rparr>"

text \<open>
  A swapping switch of group 2, a rail switch of group 0, a three-way switch without
  toggling modifier, and the target.
\<close>

definition level_switches :: level where
  "level_switches =
     \<lparr>board = [[9, 13, 10, 3]], mods = [[5, 7, 0, 0]], mod_nums = [[2, 0, 4, 0]],
      cars = [], tracks = 1\<rparr>"

text \<open>
  Two tunnel mouths of group 1, facing left and down, and the target.
\<close>

definition level_tunnel_pair :: level where
  "level_tunnel_pair =
     \<lparr>board = [[17, 1, 19], [3, 1, 1]], mods = [[2, 0, 2], [0, 0, 0]],
      mod_nums = [[1, 0, 1], [0, 0, 0]], cars = [], tracks = 2\<rparr>"

text \<open>
  Eight tunnel mouths: group 3 has two, group 1 three, group 2 one and group 0 two.
\<close>

definition level_tunnel_groups :: level where
  "level_tunnel_groups =
     \<lparr>board = [[18, 17, 20, 19], [17, 18, 19, 20], [3, 1, 1, 1]],
      mods = [[2, 2, 2, 2], [2, 2, 2, 2], [0, 0, 0, 0]],
      mod_nums = [[3, 1, 1, 2], [1, 0, 3, 0], [0, 0, 0, 0]], cars = [], tracks = 2\<rparr>"

text \<open>A well-formed level whose board has no target cell.\<close>

definition level_no_target :: level where
  "level_no_target =
     \<lparr>board = [[1, 1], [2, 0]], mods = [[0, 0], [0, 0]], mod_nums = [[0, 0], [0, 0]],
      cars = [\<lparr>car_type = ''NORMAL'', pos = (0, 0), direction = ''RIGHT''\<rparr>], tracks = 1\<rparr>"

text \<open>
  A file system for the examples: paths are strings joined by a slash, a state maps the
  paths of the files to their texts, and no operation raises.
\<close>

definition ops_simple :: "(string, string \<rightharpoonup> string) file_ops" where
  "ops_simple =
     \<lparr>path_div = (\<lambda>d name. d @ ''/'' @ name),
      mkdir = (\<lambda>p files. (Inr (), files)),
      path_exists = (\<lambda>p files. Inr (files p \<noteq> None)),
      write_text = (\<lambda>p text files. (Inr (), files(p \<mapsto> text)))\<rparr>"

definition args_default :: "string args" where
  "args_default = \<lparr>force = False, output_dir = ''data'', level_prefix = None\<rparr>"

definition state_empty :: "(string \<rightharpoonup> string) run_state" where
  "state_empty =
     \<lparr>fs = Map.empty, converted = 0, skipped_prefix = 0, skipped_existing = 0,
      stdout = [], stderr = []\<rparr>"




text \<open>
  What one cell adds to the initial placements and to the toggled-switch list, read off
  the grids: the token placed for a modifier and a board code, and whether the pair is a
  toggled three-way switch.
\<close>

definition placed_token :: "int \<Rightarrow> int \<Rightarrow> string option" where
  "placed_token m v =
     (if m = MOD_TUNNEL then None
      else case dict_get BOARD_TO_TRACK v of
        None \<Rightarrow> None
      | Some t \<Rightarrow>
          if m = MOD_SWAPPING_TRACK \<and> startswith t ''SWITCH_''
          then Some (replace t ''SWITCH_'' ''DSWITCH_'')
          else if m = MOD_SWITCH_RAIL \<and> startswith t ''SWITCH_''
          then Some (replace t ''SWITCH_'' ''ESWITCH_'')
          else Some t)"

definition toggled_switch :: "int \<Rightarrow> int \<Rightarrow> bool" where
  "toggled_switch m v =
     (case dict_get BOARD_TO_TRACK v of
        None \<Rightarrow> False
      | Some t \<Rightarrow>
          (m = MOD_SWAPPING_TRACK \<or> m = MOD_SWITCH_RAIL) \<and> startswith t ''SWITCH_'')"

definition pieces_of :: "int list list \<Rightarrow> nat \<times> nat \<times> int \<Rightarrow> piece list" where
  "pieces_of ms cell =
     (case cell of (r, c, v) \<Rightarrow>
        case placed_token (ms ! r ! c) v of
          None \<Rightarrow> []
        | Some t \<Rightarrow> [(r + 1, c + 1, t)])"

definition registrations_of ::
  "int list list \<Rightarrow> int list list \<Rightarrow> nat \<times> nat \<times> int \<Rightarrow> tagged list" where
  "registrations_of ms mns cell =
     (case cell of (r, c, v) \<Rightarrow>
        if toggled_switch (ms ! r ! c) v \<and> mns ! r ! c > 0
        then [(r + 1, c + 1, mns ! r ! c)]
        else [])"


text \<open>
  The token of a toggled three-way switch: the prefix \<^verbatim>\<open>SWITCH_\<close> of the table's token,
  seven characters, gives way to \<^verbatim>\<open>DSWITCH_\<close> for the swapping modifier and to \<^verbatim>\<open>ESWITCH_\<close> for the
  rail modifier.
\<close>

definition toggled_token :: "int \<Rightarrow> string \<Rightarrow> string" where
  "toggled_token m t =
     (if m = MOD_SWAPPING_TRACK then ''DSWITCH_'' else ''ESWITCH_'') @ drop 7 t"


text \<open>
  Tunnel mouths read off the grids.  A mouth is a cell of the board whose modifier is
  the tunnel code and whose board code is a key of \<open>TUNNEL_DIR\<close>; \<open>tunnel_mouths\<close> lists
  the mouths in the order of the scan, rows from the top and columns from the left,
  each with its group number.  \<open>group_endpoints\<close> are the mouths of one group in that
  order, \<open>group_ids\<close> the group numbers in ascending order, \<open>exit_direction\<close> the direction
  the table gives for a board code, and \<open>pair_record\<close> the record written for two
  endpoints.
\<close>

definition mouth_of :: "int list list \<Rightarrow> int list list \<Rightarrow> nat \<times> nat \<times> int \<Rightarrow> (int \<times> endpoint) list" where
  "mouth_of ms mns cell =
     (case cell of (r, c, v) \<Rightarrow>
        if ms ! r ! c = MOD_TUNNEL \<and> dict_mem v TUNNEL_DIR
        then [(mns ! r ! c, ((r + 1, c + 1), v))]
        else [])"

definition tunnel_mouths ::
  "int list list \<Rightarrow> int list list \<Rightarrow> int list list \<Rightarrow> (int \<times> endpoint) list" where
  "tunnel_mouths b ms mns = concat (map (mouth_of ms mns) (cells b))"

definition group_endpoints ::
  "int list list \<Rightarrow> int list list \<Rightarrow> int list list \<Rightarrow> int \<Rightarrow> endpoint list" where
  "group_endpoints b ms mns k = map snd (filter (\<lambda>x. fst x = k) (tunnel_mouths b ms mns))"

definition group_ids :: "int list list \<Rightarrow> int list list \<Rightarrow> int list list \<Rightarrow> int list" where
  "group_ids b ms mns = sort (remdups (map fst (tunnel_mouths b ms mns)))"

definition exit_direction :: "int \<Rightarrow> string" where
  "exit_direction v = (case map_of TUNNEL_DIR v of Some d \<Rightarrow> d | None \<Rightarrow> [])"

definition pair_record :: "endpoint \<Rightarrow> endpoint \<Rightarrow> tunnel_pair" where
  "pair_record e1 e2 =
     (case e1 of ((r1, c1), v1) \<Rightarrow>
      case e2 of ((r2, c2), v2) \<Rightarrow>
        (r1, c1, exit_direction v1, r2, c2, exit_direction v2))"

text \<open>
  A well-formed level: the grids of modifiers and of group numbers have the shape of the
  board, row by row, and every car of kind NORMAL or DECOY has a direction of the table.
\<close>

definition well_formed :: "'a level_scheme \<Rightarrow> bool" where
  "well_formed lv =
     (map length (mods lv) = map length (board lv) \<and>
      map length (mod_nums lv) = map length (board lv) \<and>
      list_all (\<lambda>c. \<not> bad_car c) (cars lv))"

section \<open>Loops and the target search\<close>

lemmas MOD_defs =
  MOD_SWITCH_def MOD_TUNNEL_def MOD_CLOSED_GATE_def MOD_OPEN_GATE_def
  MOD_SWAPPING_TRACK_def MOD_STATION_def MOD_SWITCH_RAIL_def MOD_STARTING_CAR_def

lemma for_each_append:
  "for_each body (xs @ ys) s =
     (case for_each body xs s of Inl e \<Rightarrow> Inl e | Inr s' \<Rightarrow> for_each body ys s')"
  by (induction xs arbitrary: s) (auto split: sum.splits)

lemma for_each_map:
  "for_each body (map g xs) s = for_each (\<lambda>x. body (g x)) xs s"
  by (induction xs arbitrary: s) (auto split: sum.splits)

lemma for_each_rows_flat:
  "for_each (\<lambda>(r, row). for_each (body r) (List.enumerate 0 row)) rows s =
   for_each (case_prod body)
     (concat (map (\<lambda>(r, row). map (Pair r) (List.enumerate 0 row)) rows)) s"
proof (induction rows arbitrary: s)
  case Nil
  show ?case by simp
next
  case (Cons x rows)
  obtain r row where x: "x = (r, row)" by (cases x)
  have inner: "for_each (case_prod body) (map (Pair r) (List.enumerate 0 row)) s
      = for_each (body r) (List.enumerate 0 row) s"
    by (simp add: for_each_map)
  show ?case
    by (cases "for_each (body r) (List.enumerate 0 row) s")
       (simp_all add: x for_each_append inner Cons.IH)
qed

lemma for_cells_flat:
  "for_cells body grid s = for_each (case_prod body) (cells grid) s"
  unfolding for_cells_def cells_def by (rule for_each_rows_flat)

lemma in_cells_iff:
  "(r, c, v) \<in> set (cells grid) \<longleftrightarrow> r < length grid \<and> c < length (grid ! r) \<and> v = grid ! r ! c"
proof -
  have "(r, c, v) \<in> set (cells grid) \<longleftrightarrow>
        (\<exists>row. (r, row) \<in> set (List.enumerate 0 grid) \<and> (c, v) \<in> set (List.enumerate 0 row))"
    unfolding cells_def by auto
  also have "\<dots> \<longleftrightarrow> r < length grid \<and> c < length (grid ! r) \<and> v = grid ! r ! c"
    by (auto simp: in_set_enumerate_eq)
  finally show ?thesis .
qed

lemma for_each_total:
  "(\<And>x s. x \<in> set xs \<Longrightarrow> \<exists>s'. body x s = Inr s') \<Longrightarrow> \<exists>s'. for_each body xs s = Inr s'"
proof (induction xs arbitrary: s)
  case Nil
  show ?case by simp
next
  case (Cons x xs)
  from Cons.prems[of x s] obtain s1 where s1: "body x s = Inr s1" by auto
  from Cons.IH[of s1] Cons.prems obtain s2 where "for_each body xs s1 = Inr s2" by auto
  with s1 show ?case by simp
qed

lemma for_each_fold:
  "(\<And>x s s'. x \<in> set xs \<Longrightarrow> body x s = Inr s' \<Longrightarrow> s' = step s x) \<Longrightarrow>
   for_each body xs s = Inr s' \<Longrightarrow> s' = foldl step s xs"
proof (induction xs arbitrary: s)
  case Nil
  then show ?case by simp
next
  case (Cons x xs)
  from Cons.prems(2) obtain s1 where s1: "body x s = Inr s1" and rest: "for_each body xs s1 = Inr s'"
    by (auto split: sum.splits)
  from Cons.prems(1)[OF _ s1] have "s1 = step s x" by simp
  moreover from Cons.IH[OF _ rest] Cons.prems(1) have "s' = foldl step s1 xs" by auto
  ultimately show ?case by simp
qed

lemma find_in_row_enumerate:
  "find_in_row r (List.enumerate k row) =
     (if 3 \<in> set row then Some (r + 1, k + length (takeWhile (\<lambda>v. v \<noteq> 3) row) + 1) else None)"
  by (induction row arbitrary: k) auto

lemma find_in_rows_enumerate:
  "find_in_rows (List.enumerate k b) =
     (if 3 \<in> set (concat b)
      then Some (k + length (takeWhile (\<lambda>row. 3 \<notin> set row) b) + 1,
                 length (takeWhile (\<lambda>v. v \<noteq> 3) (b ! length (takeWhile (\<lambda>row. 3 \<notin> set row) b))) + 1)
      else None)"
  by (induction b arbitrary: k) (auto simp: find_in_row_enumerate)

lemma find_target_None_iff: "find_target b = None \<longleftrightarrow> \<not> has_target b"
  by (simp add: find_target_def find_in_rows_enumerate has_target_def)

lemma first_target_cell_takeWhile:
  assumes "first_target_cell b r c"
  shows "length (takeWhile (\<lambda>row. 3 \<notin> set row) b) = r"
    and "length (takeWhile (\<lambda>v. v \<noteq> 3) (b ! r)) = c"
proof -
  from assms have r: "r < length b" and c: "c < length (b ! r)" and v: "b ! r ! c = 3"
    and before: "3 \<notin> set (concat (take r b))" and left: "3 \<notin> set (take c (b ! r))"
    by (auto simp: first_target_cell_def)
  have "takeWhile (\<lambda>row. 3 \<notin> set row) b = take r b"
  proof (rule takeWhile_eq_take_P_nth)
    fix i assume "i < r" "i < length b"
    then have "b ! i \<in> set (take r b)" by (auto simp: in_set_conv_nth intro!: exI[of _ i])
    with before show "3 \<notin> set (b ! i)" by auto
  next
    assume "r < length b"
    from c v have "3 \<in> set (b ! r)" by (metis nth_mem)
    then show "\<not> 3 \<notin> set (b ! r)" by simp
  qed
  with r show "length (takeWhile (\<lambda>row. 3 \<notin> set row) b) = r" by simp
  have "takeWhile (\<lambda>v. v \<noteq> 3) (b ! r) = take c (b ! r)"
  proof (rule takeWhile_eq_take_P_nth)
    fix i assume "i < c" "i < length (b ! r)"
    then have "b ! r ! i \<in> set (take c (b ! r))" by (auto simp: in_set_conv_nth intro!: exI[of _ i])
    with left show "b ! r ! i \<noteq> 3" by auto
  next
    show "\<not> b ! r ! c \<noteq> 3" using v by simp
  qed
  with c show "length (takeWhile (\<lambda>v. v \<noteq> 3) (b ! r)) = c" by simp
qed

lemma has_target_first_cell:
  assumes "has_target b"
  shows "\<exists>r c. first_target_cell b r c"
proof -
  let ?r = "length (takeWhile (\<lambda>row. 3 \<notin> set row) b)"
  from assms obtain row where rowin: "row \<in> set b" "3 \<in> set row" by (auto simp: has_target_def)
  have r: "?r < length b"
  proof (rule ccontr)
    assume "\<not> ?r < length b"
    with length_takeWhile_le[of "\<lambda>row. 3 \<notin> set row" b] have "?r = length b" by simp
    then have "takeWhile (\<lambda>row. 3 \<notin> set row) b = b"
      using takeWhile_eq_take[of "\<lambda>row. 3 \<notin> set row" b] by simp
    then have "\<forall>x\<in>set b. 3 \<notin> set x" by (simp only: takeWhile_eq_all_conv)
    with rowin show False by blast
  qed
  then have hit: "3 \<in> set (b ! ?r)" using nth_length_takeWhile[of "\<lambda>row. 3 \<notin> set row" b] by auto
  let ?c = "length (takeWhile (\<lambda>v. v \<noteq> 3) (b ! ?r))"
  have c: "?c < length (b ! ?r)"
  proof (rule ccontr)
    assume "\<not> ?c < length (b ! ?r)"
    with length_takeWhile_le[of "\<lambda>v. v \<noteq> 3" "b ! ?r"] have "?c = length (b ! ?r)" by simp
    then have "takeWhile (\<lambda>v. v \<noteq> 3) (b ! ?r) = b ! ?r"
      using takeWhile_eq_take[of "\<lambda>v. v \<noteq> 3" "b ! ?r"] by simp
    then have "\<forall>x\<in>set (b ! ?r). x \<noteq> 3" by (simp only: takeWhile_eq_all_conv)
    with hit show False by blast
  qed
  then have v: "b ! ?r ! ?c = 3" using nth_length_takeWhile[of "\<lambda>v. v \<noteq> 3" "b ! ?r"] by auto
  have "3 \<notin> set (concat (take ?r b))"
    using set_takeWhileD[of _ "\<lambda>row. 3 \<notin> set row" b] by (auto simp: takeWhile_eq_take[symmetric])
  moreover have "3 \<notin> set (take ?c (b ! ?r))"
    using set_takeWhileD[of _ "\<lambda>v. v \<noteq> 3" "b ! ?r"] by (auto simp: takeWhile_eq_take[symmetric])
  ultimately show ?thesis using r c v unfolding first_target_cell_def by blast
qed

lemma find_target_first_cell:
  assumes "first_target_cell b r c"
  shows "find_target b = Some (r + 1, c + 1)"
proof -
  from assms have "3 \<in> set (b ! r)" "r < length b"
    by (auto simp: first_target_cell_def in_set_conv_nth)
  then have "3 \<in> set (concat b)" by (auto intro!: bexI[of _ "b ! r"])
  then show ?thesis
    using first_target_cell_takeWhile[OF assms]
    by (simp add: find_target_def find_in_rows_enumerate)
qed

section \<open>Cars\<close>

lemma DIRECTION_MAP_lookup:
  "dict_index KeyError_str DIRECTION_MAP d =
     (if known_direction d then Inr (translate_direction d) else Inl (KeyError_str d))"
  by (simp add: dict_index_def DIRECTION_MAP_def known_direction_def translate_direction_def)

lemma car_step_eq:
  "car_step c (tr, de) =
     (if bad_car c then Inl (KeyError_str (direction c))
      else Inr (if is_normal c then tr @ [car_record c] else tr,
                if is_decoy c then de @ [car_record c] else de))"
  by (cases "pos c")
     (simp add: car_step_def DIRECTION_MAP_lookup bad_car_def is_normal_def is_decoy_def
        car_record_def)

lemma for_each_car_step:
  "for_each car_step cs (tr, de) =
     (case List.find bad_car cs of
        Some c \<Rightarrow> Inl (KeyError_str (direction c))
      | None \<Rightarrow> Inr (tr @ map car_record (filter is_normal cs),
                     de @ map car_record (filter is_decoy cs)))"
  by (induction cs arbitrary: tr de) (auto simp: car_step_eq split: option.splits)

lemma collect_cars_eq:
  "collect_cars cs =
     (case List.find bad_car cs of
        Some c \<Rightarrow> Inl (KeyError_str (direction c))
      | None \<Rightarrow> Inr (map car_record (filter is_normal cs), map car_record (filter is_decoy cs)))"
  unfolding collect_cars_def by (simp add: for_each_car_step split: option.splits)

lemma find_bad_car_None: "List.find bad_car cs = None \<longleftrightarrow> \<not> (\<exists>c\<in>set cs. bad_car c)"
  by (auto simp: find_None_iff)

lemma find_bad_car_Some: "List.find bad_car cs = Some c \<Longrightarrow> c \<in> set cs \<and> bad_car c"
  by (auto simp: find_Some_iff)

section \<open>The passes of the conversion, one by one\<close>

lemma convert_data_no_target:
  "\<not> has_target (board lv) \<Longrightarrow>
   convert_data n lv = Inl (ValueError (''No target found for level '' @ n))"
  by (simp add: convert_data_def find_target_None_iff[symmetric] Let_def)

lemma convert_data_Inr:
  assumes "convert_data n lv = Inr d"
  shows "find_target (board lv) = Some (target d)"
    and "collect_cars (cars lv) = Inr (trains d, decoys d)"
    and "collect_init (board lv) (mods lv) (mod_nums lv) = Inr (init_pos d, dswitches d)"
    and "\<exists>eps. collect_endpoints (board lv) (mods lv) (mod_nums lv) = Inr eps \<and>
           pair_tunnels eps = Inr (tunnel_pairs d)"
    and "collect_gates (mods lv) (mod_nums lv) = Inr (gates d, activations d)"
    and "collect_stations (mods lv) (mod_nums lv) = Inr (stations d)"
    and "H d = length (board lv)"
    and "W d = (if length (board lv) > 0 then length (board lv ! 0) else 0)"
    and "max_tracks d = tracks lv"
  using assms
  by (auto simp: convert_data_def Let_def split: option.splits sum.splits prod.splits)

lemma convert_data_cars_error:
  "find_target (board lv) = Some tg \<Longrightarrow> collect_cars (cars lv) = Inl e \<Longrightarrow>
   convert_data n lv = Inl e"
  by (simp add: convert_data_def Let_def)

lemma convert_level_Inl_iff: "convert_level n lv = Inl e \<longleftrightarrow> convert_data n lv = Inl e"
  by (simp add: convert_level_def split: sum.splits)

lemma convert_level_Inr_iff: "convert_level n lv = Inr s \<longleftrightarrow> (\<exists>d. convert_data n lv = Inr d \<and> s = render d)"
  by (auto simp: convert_level_def split: sum.splits)

lemma dzn_lines_target:
  "dzn_lines d ! 6 =
     ''TARGET=('' @ str_nat (fst (target d)) @ '','' @ str_nat (snd (target d)) @ '');''"
  by (simp add: dzn_lines_def)

section \<open>The loop of main on a level whose conversion fails\<close>

lemma run_levels_append:
  "run_levels ops a (xs @ ys) st = run_levels ops a ys (run_levels ops a xs st)"
  by (simp add: run_levels_def)

lemma run_levels_Cons:
  "run_levels ops a (x # xs) st = run_levels ops a xs (process_level ops a x st)"
  by (simp add: run_levels_def)

lemma run_levels_continues:
  "run_levels ops a (xs @ item # ys) st =
     run_levels ops a ys (process_level ops a item (run_levels ops a xs st))"
  by (simp only: run_levels_append run_levels_Cons)

lemma process_level_reached_failure:
  assumes "convert_level n lv = Inl e" and "reaches_conversion ops a n st"
  shows "process_level ops a (n, lv) st =
           st\<lparr>fs := snd (mkdir ops (out_dir_of ops a n) (fs st)),
              stderr := stderr st @ [(n, e)]\<rparr>"
proof -
  obtain r fs1 where mk: "mkdir ops (out_dir_of ops a n) (fs st) = (r, fs1)"
    by (cases "mkdir ops (out_dir_of ops a n) (fs st)")
  with assms(2) have r: "r = Inr ()" by (simp add: reaches_conversion_def)
  from assms(2) mk have ex: "force a \<or> path_exists ops (output_path_of ops a n) fs1 = Inr False"
    by (simp add: reaches_conversion_def)
  from assms(2) have pre: "\<not> startswith n ''#''" "\<not> prefix_mismatch a n"
    by (simp_all add: reaches_conversion_def)
  from mk r have mk': "mkdir ops (path_div ops (output_dir a) (world_of n)) (fs st) = (Inr (), fs1)"
    by (simp add: out_dir_of_def)
  from ex have ex': "(if force a then Inr False
      else path_exists ops (path_div ops (path_div ops (output_dir a) (world_of n)) (n @ ''.dzn'')) fs1)
      = Inr False"
    by (auto simp: output_path_of_def out_dir_of_def)
  show ?thesis
    unfolding process_level_def
    by (simp add: pre Let_def mk' ex' assms(1) mk)
qed

lemma process_level_failure_no_write:
  assumes "convert_level n lv = Inl e"
  shows "converted (process_level ops a (n, lv) st) = converted st"
    and "fs (process_level ops a (n, lv) st) = fs st \<or>
         fs (process_level ops a (n, lv) st) = snd (mkdir ops (out_dir_of ops a n) (fs st))"
  using assms
  by (auto simp: process_level_def Let_def out_dir_of_def
        split: prod.splits sum.splits bool.splits)

lemma process_level_reached_success:
  assumes "convert_level n lv = Inr content" and "reaches_conversion ops a n st"
  shows "process_level ops a (n, lv) st =
     (case write_text ops (output_path_of ops a n) content
             (snd (mkdir ops (out_dir_of ops a n) (fs st))) of
        (Inl e, fs2) \<Rightarrow> st\<lparr>fs := fs2, stderr := stderr st @ [(n, e)]\<rparr>
      | (Inr u, fs2) \<Rightarrow>
          if (converted st + 1) mod 10 = 0
          then st\<lparr>fs := fs2, converted := converted st + 1,
                  stdout := stdout st @
                    [''  Converted '' @ str_nat (converted st + 1) @ '' levels...'']\<rparr>
          else st\<lparr>fs := fs2, converted := converted st + 1\<rparr>)"
proof -
  obtain r fs1 where mk: "mkdir ops (out_dir_of ops a n) (fs st) = (r, fs1)"
    by (cases "mkdir ops (out_dir_of ops a n) (fs st)")
  with assms(2) have r: "r = Inr ()" by (simp add: reaches_conversion_def)
  from assms(2) mk have ex: "force a \<or> path_exists ops (output_path_of ops a n) fs1 = Inr False"
    by (simp add: reaches_conversion_def)
  from assms(2) have pre: "\<not> startswith n ''#''" "\<not> prefix_mismatch a n"
    by (simp_all add: reaches_conversion_def)
  from mk r have mk': "mkdir ops (path_div ops (output_dir a) (world_of n)) (fs st) = (Inr (), fs1)"
    by (simp add: out_dir_of_def)
  from ex have ex': "(if force a then Inr False
      else path_exists ops (path_div ops (path_div ops (output_dir a) (world_of n)) (n @ ''.dzn'')) fs1)
      = Inr False"
    by (auto simp: output_path_of_def out_dir_of_def)
  obtain w fs2 where wr: "write_text ops
      (path_div ops (path_div ops (output_dir a) (world_of n)) (n @ ''.dzn'')) content fs1 = (w, fs2)"
    by (cases "write_text ops
      (path_div ops (path_div ops (output_dir a) (world_of n)) (n @ ''.dzn'')) content fs1")
  then have wr': "write_text ops (output_path_of ops a n) content fs1 = (w, fs2)"
    by (simp add: output_path_of_def out_dir_of_def)
  show ?thesis
    unfolding process_level_def
    by (cases w) (simp_all add: pre Let_def mk' ex' assms(1) mk wr wr')
qed

section \<open>Initial placements and toggled switches\<close>

lemma for_each_Inr_each:
  "for_each body xs s = Inr s' \<Longrightarrow> x \<in> set xs \<Longrightarrow> \<exists>a a'. body x a = Inr a'"
proof (induction xs arbitrary: s)
  case Nil
  then show ?case by simp
next
  case (Cons y ys)
  from Cons.prems(1) obtain s1 where s1: "body y s = Inr s1" and rest: "for_each body ys s1 = Inr s'"
    by (auto split: sum.splits)
  show ?case
  proof (cases "x = y")
    case True
    with s1 show ?thesis by blast
  next
    case False
    with Cons.prems(2) have "x \<in> set ys" by simp
    from Cons.IH[OF rest this] show ?thesis .
  qed
qed

lemma for_each_appends2:
  assumes "\<And>x a b a' b'. x \<in> set xs \<Longrightarrow> body x (a, b) = Inr (a', b') \<Longrightarrow>
             a' = a @ f x \<and> b' = b @ g x"
    and "for_each body xs (a, b) = Inr (a', b')"
  shows "a' = a @ concat (map f xs) \<and> b' = b @ concat (map g xs)"
  using assms
proof (induction xs arbitrary: a b)
  case Nil
  then show ?case by simp
next
  case (Cons x xs)
  from Cons.prems(2) obtain a1 b1 where s1: "body x (a, b) = Inr (a1, b1)"
    and rest: "for_each body xs (a1, b1) = Inr (a', b')"
    by (auto split: sum.splits)
  have "x \<in> set (x # xs)" by simp
  from Cons.prems(1)[OF this s1] have one: "a1 = a @ f x" "b1 = b @ g x" by blast+
  have step: "\<And>y p q p' q'. y \<in> set xs \<Longrightarrow> body y (p, q) = Inr (p', q') \<Longrightarrow>
      p' = p @ f y \<and> q' = q @ g y"
  proof -
    fix y p q p' q'
    assume "y \<in> set xs" and run: "body y (p, q) = Inr (p', q')"
    then have "y \<in> set (x # xs)" by simp
    from Cons.prems(1)[OF this run] show "p' = p @ f y \<and> q' = q @ g y" .
  qed
  from Cons.IH[OF step rest] have "a' = a1 @ concat (map f xs) \<and> b' = b1 @ concat (map g xs)" .
  then show ?case by (simp add: one)
qed

lemma get2_Inr: "get2 grid r c = Inr x \<Longrightarrow> r < length grid \<and> c < length (grid ! r) \<and> x = grid ! r ! c"
  by (auto simp: get2_def split: if_splits)

lemma get2_in_range: "r < length grid \<Longrightarrow> c < length (grid ! r) \<Longrightarrow> get2 grid r c = Inr (grid ! r ! c)"
  by (simp add: get2_def)

lemma get2_Inl: "get2 grid r c = Inl e \<Longrightarrow> e = IndexError \<and> \<not> (r < length grid \<and> c < length (grid ! r))"
  by (auto simp: get2_def split: if_splits)

lemma init_cell_eq:
  "init_cell ms mns r (c, v) (ip, ds) =
     (case get2 ms r c of
        Inl e \<Rightarrow> Inl e
      | Inr m \<Rightarrow>
          (case placed_token m v of
             None \<Rightarrow> Inr (ip, ds)
           | Some t \<Rightarrow>
               if toggled_switch m v then
                 (case get2 mns r c of
                    Inl e \<Rightarrow> Inl e
                  | Inr k \<Rightarrow> Inr (ip @ [(r + 1, c + 1, t)],
                                if k > 0 then ds @ [(r + 1, c + 1, k)] else ds))
               else Inr (ip @ [(r + 1, c + 1, t)], ds)))"
proof (cases "get2 ms r c")
  case (Inl e)
  then show ?thesis by (simp add: init_cell_def)
next
  case (Inr m)
  show ?thesis
  proof (cases "m = MOD_TUNNEL")
    case True
    then show ?thesis by (simp add: init_cell_def Inr placed_token_def)
  next
    case nt: False
    show ?thesis
    proof (cases "dict_get BOARD_TO_TRACK v")
      case None
      then show ?thesis by (simp add: init_cell_def Inr placed_token_def nt)
    next
      case (Some t)
      show ?thesis
      proof (cases "startswith t ''SWITCH_''")
        case False
        then show ?thesis
          by (simp add: init_cell_def Inr placed_token_def toggled_switch_def nt Some Let_def)
      next
        case sw: True
        consider "m = MOD_SWAPPING_TRACK" | "m = MOD_SWITCH_RAIL"
          | "m \<noteq> MOD_SWAPPING_TRACK" "m \<noteq> MOD_SWITCH_RAIL" by blast
        then show ?thesis
        proof cases
          case 1
          then show ?thesis
            by (cases "get2 mns r c")
               (simp_all add: init_cell_def Inr placed_token_def toggled_switch_def nt Some Let_def sw)
        next
          case 2
          then have "m \<noteq> MOD_SWAPPING_TRACK" by (simp add: MOD_defs)
          with 2 show ?thesis
            by (cases "get2 mns r c")
               (simp_all add: init_cell_def Inr placed_token_def toggled_switch_def nt Some Let_def sw)
        next
          case 3
          then show ?thesis
            by (simp add: init_cell_def Inr placed_token_def toggled_switch_def nt Some Let_def sw)
        qed
      qed
    qed
  qed
qed

lemma placed_None_not_toggled:
  assumes "placed_token m v = None"
  shows "\<not> toggled_switch m v"
proof (cases "dict_get BOARD_TO_TRACK v")
  case None
  then show ?thesis by (simp add: toggled_switch_def)
next
  case (Some t)
  have "m = MOD_TUNNEL"
  proof (rule ccontr)
    assume "m \<noteq> MOD_TUNNEL"
    then have "placed_token m v \<noteq> None" by (simp add: placed_token_def Some)
    with assms show False by simp
  qed
  then show ?thesis by (simp add: toggled_switch_def Some MOD_defs)
qed

lemma init_cell_step:
  assumes "init_cell ms mns r (c, v) (ip, ds) = Inr (ip', ds')"
  shows "ip' = ip @ pieces_of ms (r, c, v) \<and> ds' = ds @ registrations_of ms mns (r, c, v)"
proof -
  from assms obtain m where m: "get2 ms r c = Inr m"
    by (cases "get2 ms r c") (simp_all add: init_cell_eq)
  have mv: "ms ! r ! c = m" using get2_Inr[OF m] by simp
  have p: "pieces_of ms (r, c, v) = (case placed_token m v of None \<Rightarrow> [] | Some t \<Rightarrow> [(r + 1, c + 1, t)])"
    by (simp add: pieces_of_def mv)
  have g: "registrations_of ms mns (r, c, v) =
      (if toggled_switch m v \<and> mns ! r ! c > 0 then [(r + 1, c + 1, mns ! r ! c)] else [])"
    by (simp add: registrations_of_def mv)
  from assms have run: "(case placed_token m v of
             None \<Rightarrow> Inr (ip, ds)
           | Some t \<Rightarrow>
               if toggled_switch m v then
                 (case get2 mns r c of
                    Inl e \<Rightarrow> Inl e
                  | Inr k \<Rightarrow> Inr (ip @ [(r + 1, c + 1, t)],
                                if k > 0 then ds @ [(r + 1, c + 1, k)] else ds))
               else Inr (ip @ [(r + 1, c + 1, t)], ds)) = Inr (ip', ds')"
    by (simp add: init_cell_eq m)
  show ?thesis
  proof (cases "placed_token m v")
    case None
    from placed_None_not_toggled[OF None] run show ?thesis
      by (simp add: p g None)
  next
    case (Some t)
    show ?thesis
    proof (cases "toggled_switch m v")
      case False
      with run show ?thesis by (simp add: p g Some)
    next
      case True
      with run obtain k where k: "get2 mns r c = Inr k"
        by (cases "get2 mns r c") (simp_all add: Some)
      have kv: "mns ! r ! c = k" using get2_Inr[OF k] by simp
      show ?thesis
      proof (cases "k > 0")
        case True
        with run \<open>toggled_switch m v\<close> show ?thesis by (simp add: p g Some k kv)
      next
        case False
        with run \<open>toggled_switch m v\<close> show ?thesis by (simp add: p g Some k kv)
      qed
    qed
  qed
qed

lemma collect_init_Inr:
  assumes "collect_init b ms mns = Inr (ip, ds)"
  shows "ip = concat (map (pieces_of ms) (cells b))"
    and "ds = concat (map (registrations_of ms mns) (cells b))"
proof -
  from assms have loop: "for_each (case_prod (init_cell ms mns)) (cells b) ([], []) = Inr (ip, ds)"
    by (simp add: collect_init_def for_cells_flat)
  have "ip = [] @ concat (map (pieces_of ms) (cells b)) \<and>
        ds = [] @ concat (map (registrations_of ms mns) (cells b))"
  proof (rule for_each_appends2[OF _ loop])
    fix x a b' a' b''
    assume "case_prod (init_cell ms mns) x (a, b') = Inr (a', b'')"
    then show "a' = a @ pieces_of ms x \<and> b'' = b' @ registrations_of ms mns x"
      by (cases x) (auto dest: init_cell_step)
  qed
  then show "ip = concat (map (pieces_of ms) (cells b))"
    and "ds = concat (map (registrations_of ms mns) (cells b))" by simp_all
qed

lemma collect_init_cell_ok:
  assumes "collect_init b ms mns = Inr (ip, ds)" and "r < length b" and "c < length (b ! r)"
  shows "\<exists>a a'. init_cell ms mns r (c, b ! r ! c) a = Inr a'"
proof -
  from assms(1) have loop: "for_each (case_prod (init_cell ms mns)) (cells b) ([], []) = Inr (ip, ds)"
    by (simp add: collect_init_def for_cells_flat)
  from assms(2,3) have "(r, c, b ! r ! c) \<in> set (cells b)" by (simp add: in_cells_iff)
  from for_each_Inr_each[OF loop this] show ?thesis by simp
qed

lemma in_init_pos_iff:
  assumes "collect_init b ms mns = Inr (ip, ds)"
  shows "(r + 1, c + 1, t) \<in> set ip \<longleftrightarrow>
         r < length b \<and> c < length (b ! r) \<and> placed_token (ms ! r ! c) (b ! r ! c) = Some t"
proof -
  have "(r + 1, c + 1, t) \<in> set ip \<longleftrightarrow>
        (\<exists>cell \<in> set (cells b). (r + 1, c + 1, t) \<in> set (pieces_of ms cell))"
    by (simp add: collect_init_Inr(1)[OF assms])
  also have "\<dots> \<longleftrightarrow> (\<exists>r' c' v. (r', c', v) \<in> set (cells b) \<and>
        (r + 1, c + 1, t) \<in> set (pieces_of ms (r', c', v)))"
    by auto
  also have "\<dots> \<longleftrightarrow> r < length b \<and> c < length (b ! r) \<and>
        placed_token (ms ! r ! c) (b ! r ! c) = Some t"
    by (auto simp: in_cells_iff pieces_of_def split: option.splits)
  finally show ?thesis .
qed

lemma in_dswitches_iff:
  assumes "collect_init b ms mns = Inr (ip, ds)"
  shows "(r + 1, c + 1, k) \<in> set ds \<longleftrightarrow>
         r < length b \<and> c < length (b ! r) \<and> toggled_switch (ms ! r ! c) (b ! r ! c) \<and>
         k = mns ! r ! c \<and> k > 0"
proof -
  have "(r + 1, c + 1, k) \<in> set ds \<longleftrightarrow>
        (\<exists>cell \<in> set (cells b). (r + 1, c + 1, k) \<in> set (registrations_of ms mns cell))"
    by (simp add: collect_init_Inr(2)[OF assms])
  also have "\<dots> \<longleftrightarrow> (\<exists>r' c' v. (r', c', v) \<in> set (cells b) \<and>
        (r + 1, c + 1, k) \<in> set (registrations_of ms mns (r', c', v)))"
    by auto
  also have "\<dots> \<longleftrightarrow> r < length b \<and> c < length (b ! r) \<and>
        toggled_switch (ms ! r ! c) (b ! r ! c) \<and> k = mns ! r ! c \<and> k > 0"
    by (auto simp: in_cells_iff registrations_of_def split: if_splits)
  finally show ?thesis .
qed

lemma table_switch_tokens:
  "list_all (\<lambda>(v, tt). case tt of None \<Rightarrow> True
      | Some t \<Rightarrow>
          (\<not> startswith t ''SWITCH_'' \<or>
           (replace t ''SWITCH_'' ''DSWITCH_'' = ''DSWITCH_'' @ drop 7 t \<and>
            replace t ''SWITCH_'' ''ESWITCH_'' = ''ESWITCH_'' @ drop 7 t)))
     BOARD_TO_TRACK"
  by code_simp

lemma dict_get_SomeD: "dict_get d k = Some t \<Longrightarrow> (k, Some t) \<in> set d"
  by (auto simp: dict_get_def split: option.splits dest: map_of_SomeD)

lemma replace_switch_prefix:
  assumes "dict_get BOARD_TO_TRACK v = Some t" and "startswith t ''SWITCH_''"
  shows "replace t ''SWITCH_'' ''DSWITCH_'' = ''DSWITCH_'' @ drop 7 t"
    and "replace t ''SWITCH_'' ''ESWITCH_'' = ''ESWITCH_'' @ drop 7 t"
proof -
  from dict_get_SomeD[OF assms(1)] have "(v, Some t) \<in> set BOARD_TO_TRACK" .
  with table_switch_tokens have
    "\<not> startswith t ''SWITCH_'' \<or>
           (replace t ''SWITCH_'' ''DSWITCH_'' = ''DSWITCH_'' @ drop 7 t \<and>
            replace t ''SWITCH_'' ''ESWITCH_'' = ''ESWITCH_'' @ drop 7 t)"
    by (auto simp: list_all_iff)
  with assms(2) show "replace t ''SWITCH_'' ''DSWITCH_'' = ''DSWITCH_'' @ drop 7 t"
    and "replace t ''SWITCH_'' ''ESWITCH_'' = ''ESWITCH_'' @ drop 7 t" by simp_all
qed

lemma switch_codes:
  "(\<exists>t. dict_get BOARD_TO_TRACK v = Some t \<and> startswith t ''SWITCH_'') \<longleftrightarrow> 9 \<le> v \<and> v \<le> 16"
proof
  assume "\<exists>t. dict_get BOARD_TO_TRACK v = Some t \<and> startswith t ''SWITCH_''"
  then obtain t where g: "dict_get BOARD_TO_TRACK v = Some t" and s: "startswith t ''SWITCH_''"
    by auto
  from dict_get_SomeD[OF g] have t: "(v, Some t) \<in> set BOARD_TO_TRACK" .
  have "list_all (\<lambda>(v, tt). case tt of None \<Rightarrow> True
      | Some t \<Rightarrow> (\<not> startswith t ''SWITCH_'' \<or> (9 \<le> v \<and> v \<le> 16))) BOARD_TO_TRACK"
    by code_simp
  with t s show "9 \<le> v \<and> v \<le> 16" by (auto simp: list_all_iff)
next
  assume "9 \<le> v \<and> v \<le> 16"
  then have "v \<in> {9, 10, 11, 12, 13, 14, 15, 16}" by auto
  then show "\<exists>t. dict_get BOARD_TO_TRACK v = Some t \<and> startswith t ''SWITCH_''"
    by (auto simp: dict_get_def BOARD_TO_TRACK_def startswith_def)
qed

section \<open>Tunnels\<close>

lemma add_endpoint_map_of:
  "map_of (add_endpoint k e acc) k' =
     (if k' = k then Some ((case map_of acc k of None \<Rightarrow> [] | Some es \<Rightarrow> es) @ [e])
      else map_of acc k')"
  by (induction acc) auto

lemma add_endpoint_keys:
  "fst ` set (add_endpoint k e acc) = insert k (fst ` set acc)"
proof -
  have "k' \<in> fst ` set (add_endpoint k e acc) \<longleftrightarrow> k' \<in> insert k (fst ` set acc)" for k'
  proof -
    have "k' \<in> fst ` set (add_endpoint k e acc) \<longleftrightarrow> map_of (add_endpoint k e acc) k' \<noteq> None"
      by (simp add: map_of_eq_None_iff)
    also have "\<dots> \<longleftrightarrow> k' = k \<or> map_of acc k' \<noteq> None"
      by (simp add: add_endpoint_map_of)
    also have "\<dots> \<longleftrightarrow> k' \<in> insert k (fst ` set acc)"
      by (simp add: map_of_eq_None_iff)
    finally show ?thesis .
  qed
  then show ?thesis by blast
qed

lemma add_endpoint_distinct:
  "distinct (map fst acc) \<Longrightarrow> distinct (map fst (add_endpoint k e acc))"
proof (induction acc)
  case Nil
  show ?case by simp
next
  case (Cons x acc)
  obtain k' es where x: "x = (k', es)" by (cases x)
  from Cons show ?case
    by (cases "k = k'") (simp_all add: x add_endpoint_keys)
qed

lemma foldl_add_map_of:
  "map_of (foldl (\<lambda>a x. add_endpoint (fst x) (snd x) a) acc ms) k =
     (case map_of acc k of
        None \<Rightarrow> (if filter (\<lambda>x. fst x = k) ms = [] then None
                 else Some (map snd (filter (\<lambda>x. fst x = k) ms)))
      | Some es \<Rightarrow> Some (es @ map snd (filter (\<lambda>x. fst x = k) ms)))"
proof (induction ms arbitrary: acc)
  case Nil
  show ?case by (simp split: option.splits)
next
  case (Cons x ms)
  show ?case
    by (cases "fst x = k"; cases "map_of acc k")
       (simp_all add: Cons.IH add_endpoint_map_of)
qed

lemma foldl_add_keys:
  "fst ` set (foldl (\<lambda>a x. add_endpoint (fst x) (snd x) a) acc ms) =
     fst ` set acc \<union> fst ` set ms"
proof (induction ms arbitrary: acc)
  case Nil
  show ?case by simp
next
  case (Cons x ms)
  show ?case by (simp add: Cons.IH add_endpoint_keys)
qed

lemma foldl_add_distinct:
  "distinct (map fst acc) \<Longrightarrow>
   distinct (map fst (foldl (\<lambda>a x. add_endpoint (fst x) (snd x) a) acc ms))"
  by (induction ms arbitrary: acc) (simp_all add: add_endpoint_distinct)

lemma for_each_foldl_lists:
  assumes "\<And>x a a'. x \<in> set xs \<Longrightarrow> body x a = Inr a' \<Longrightarrow> a' = foldl step a (f x)"
    and "for_each body xs a = Inr a'"
  shows "a' = foldl step a (concat (map f xs))"
  using assms
proof (induction xs arbitrary: a)
  case Nil
  then show ?case by simp
next
  case (Cons x xs)
  from Cons.prems(2) obtain a1 where s1: "body x a = Inr a1"
    and rest: "for_each body xs a1 = Inr a'"
    by (auto split: sum.splits)
  have "x \<in> set (x # xs)" by simp
  from Cons.prems(1)[OF this s1] have one: "a1 = foldl step a (f x)" .
  have step: "\<And>y p p'. y \<in> set xs \<Longrightarrow> body y p = Inr p' \<Longrightarrow> p' = foldl step p (f y)"
  proof -
    fix y p p'
    assume "y \<in> set xs" and run: "body y p = Inr p'"
    then have "y \<in> set (x # xs)" by simp
    from Cons.prems(1)[OF this run] show "p' = foldl step p (f y)" .
  qed
  from Cons.IH[OF step rest] have "a' = foldl step a1 (concat (map f xs))" .
  then show ?case by (simp add: one)
qed

lemma tunnel_cell_step:
  assumes "tunnel_cell ms mns r (c, v) acc = Inr acc'"
  shows "acc' = foldl (\<lambda>a x. add_endpoint (fst x) (snd x) a) acc (mouth_of ms mns (r, c, v))"
proof -
  from assms obtain m where m: "get2 ms r c = Inr m"
    by (cases "get2 ms r c") (simp_all add: tunnel_cell_def)
  have mv: "ms ! r ! c = m" using get2_Inr[OF m] by simp
  show ?thesis
  proof (cases "m = MOD_TUNNEL \<and> dict_mem v TUNNEL_DIR")
    case False
    with assms show ?thesis by (auto simp: tunnel_cell_def m mouth_of_def mv)
  next
    case True
    with assms obtain k where k: "get2 mns r c = Inr k"
      by (cases "get2 mns r c") (simp_all add: tunnel_cell_def m)
    have kv: "mns ! r ! c = k" using get2_Inr[OF k] by simp
    from True assms show ?thesis by (simp add: tunnel_cell_def m k mouth_of_def mv kv)
  qed
qed

lemma collect_endpoints_Inr:
  assumes "collect_endpoints b ms mns = Inr eps"
  shows "eps = foldl (\<lambda>a x. add_endpoint (fst x) (snd x) a) [] (tunnel_mouths b ms mns)"
proof -
  from assms have loop: "for_each (case_prod (tunnel_cell ms mns)) (cells b) [] = Inr eps"
    by (simp add: collect_endpoints_def for_cells_flat)
  show ?thesis
    unfolding tunnel_mouths_def
  proof (rule for_each_foldl_lists[OF _ loop])
    fix x a a'
    assume "case_prod (tunnel_cell ms mns) x a = Inr a'"
    then show "a' = foldl (\<lambda>a x. add_endpoint (fst x) (snd x) a) a (mouth_of ms mns x)"
      by (cases x) (auto dest: tunnel_cell_step)
  qed
qed

lemma collected_groups:
  assumes "collect_endpoints b ms mns = Inr eps"
  shows "map_of eps k = (if group_endpoints b ms mns k = [] then None
                         else Some (group_endpoints b ms mns k))"
    and "sort (map fst eps) = group_ids b ms mns"
proof -
  note eps = collect_endpoints_Inr[OF assms]
  show "map_of eps k = (if group_endpoints b ms mns k = [] then None
                         else Some (group_endpoints b ms mns k))"
    by (simp add: eps foldl_add_map_of group_endpoints_def)
  have d: "distinct (map fst eps)"
    unfolding eps by (rule foldl_add_distinct) simp
  have s: "set (map fst eps) = set (map fst (tunnel_mouths b ms mns))"
    unfolding eps by (simp add: foldl_add_keys)
  show "sort (map fst eps) = group_ids b ms mns"
    unfolding group_ids_def
  proof (rule sorted_distinct_set_unique)
    show "sorted (sort (map fst eps))" by simp
    show "distinct (sort (map fst eps))" using d by simp
    show "sorted (sort (remdups (map fst (tunnel_mouths b ms mns))))" by simp
    show "distinct (sort (remdups (map fst (tunnel_mouths b ms mns))))" by simp
    show "set (sort (map fst eps)) = set (sort (remdups (map fst (tunnel_mouths b ms mns))))"
      using s by simp
  qed
qed

lemma tunnel_mouths_codes:
  assumes "(k, p, v) \<in> set (tunnel_mouths b ms mns)"
  shows "dict_mem v TUNNEL_DIR"
proof -
  from assms obtain cell where "(k, p, v) \<in> set (mouth_of ms mns cell)"
    by (auto simp: tunnel_mouths_def)
  then show ?thesis
    by (cases cell) (auto simp: mouth_of_def split: if_splits)
qed

lemma group_endpoints_codes:
  assumes "(p, v) \<in> set (group_endpoints b ms mns k)"
  shows "dict_mem v TUNNEL_DIR"
proof -
  from assms have "(k, p, v) \<in> set (tunnel_mouths b ms mns)"
    by (auto simp: group_endpoints_def)
  then show ?thesis by (rule tunnel_mouths_codes)
qed

lemma TUNNEL_DIR_index:
  "dict_mem v TUNNEL_DIR \<Longrightarrow> dict_index KeyError_int TUNNEL_DIR v = Inr (exit_direction v)"
  by (auto simp: dict_mem_def dict_index_def exit_direction_def)

lemma pair_step_collected:
  assumes "collect_endpoints b ms mns = Inr eps" and "k \<in> set (group_ids b ms mns)"
  shows "pair_step eps k tp =
     Inr (tp @ (if length (group_endpoints b ms mns k) = 2
                then [pair_record (group_endpoints b ms mns k ! 0) (group_endpoints b ms mns k ! 1)]
                else []))"
proof -
  let ?G = "group_endpoints b ms mns k"
  from assms(2) have "k \<in> set (sort (map fst eps))"
    by (simp only: collected_groups(2)[OF assms(1)])
  then have "k \<in> fst ` set eps" by simp
  then have "map_of eps k \<noteq> None" by (simp add: map_of_eq_None_iff)
  then have look: "map_of eps k = Some ?G"
    by (simp add: collected_groups(1)[OF assms(1)] split: if_splits)
  then have idx: "dict_index KeyError_int eps k = Inr ?G"
    by (simp add: dict_index_def)
  show ?thesis
  proof (cases "length ?G = 2")
    case False
    then show ?thesis by (simp add: pair_step_def idx)
  next
    case True
    obtain r1 c1 v1 where e1: "?G ! 0 = ((r1, c1), v1)" by (metis prod.exhaust)
    obtain r2 c2 v2 where e2: "?G ! 1 = ((r2, c2), v2)" by (metis prod.exhaust)
    from True have i0: "?G ! 0 \<in> set ?G" and i1: "?G ! 1 \<in> set ?G" by simp_all
    from i0 have "((r1, c1), v1) \<in> set ?G" by (simp only: e1)
    then have m1: "dict_mem v1 TUNNEL_DIR" by (rule group_endpoints_codes)
    from i1 have "((r2, c2), v2) \<in> set ?G" by (simp only: e2)
    then have m2: "dict_mem v2 TUNNEL_DIR" by (rule group_endpoints_codes)
    from m1 m2 have d: "dict_index KeyError_int TUNNEL_DIR v1 = Inr (exit_direction v1)"
      "dict_index KeyError_int TUNNEL_DIR v2 = Inr (exit_direction v2)"
      by (simp_all add: TUNNEL_DIR_index)
    from e2 have e2': "?G ! Suc 0 = ((r2, c2), v2)" by simp
    from True show ?thesis
      by (simp add: pair_step_def idx e1 e2' d pair_record_def)
  qed
qed

lemma for_each_appends1:
  assumes "\<And>x a. x \<in> set xs \<Longrightarrow> body x a = Inr (a @ f x)"
  shows "for_each body xs a = Inr (a @ concat (map f xs))"
  using assms
proof (induction xs arbitrary: a)
  case Nil
  show ?case by simp
next
  case (Cons x xs)
  have one: "body x a = Inr (a @ f x)" by (rule Cons.prems) simp
  have "for_each body xs (a @ f x) = Inr ((a @ f x) @ concat (map f xs))"
  proof (rule Cons.IH)
    fix y p
    assume "y \<in> set xs"
    then have "y \<in> set (x # xs)" by simp
    then show "body y p = Inr (p @ f y)" by (rule Cons.prems)
  qed
  with one show ?case by simp
qed

lemma concat_map_if:
  "concat (map (\<lambda>x. if P x then [f x] else []) xs) = map f (filter P xs)"
  by (induction xs) simp_all

lemma pair_tunnels_collected:
  assumes "collect_endpoints b ms mns = Inr eps"
  shows "pair_tunnels eps =
     Inr (map (\<lambda>k. pair_record (group_endpoints b ms mns k ! 0) (group_endpoints b ms mns k ! 1))
            (filter (\<lambda>k. length (group_endpoints b ms mns k) = 2) (group_ids b ms mns)))"
proof -
  have "for_each (pair_step eps) (group_ids b ms mns) [] =
      Inr ([] @ concat (map (\<lambda>k. if length (group_endpoints b ms mns k) = 2
                then [pair_record (group_endpoints b ms mns k ! 0) (group_endpoints b ms mns k ! 1)]
                else []) (group_ids b ms mns)))"
    by (rule for_each_appends1) (rule pair_step_collected[OF assms])
  then show ?thesis
    by (simp add: pair_tunnels_def collected_groups(2)[OF assms] concat_map_if)
qed

lemma convert_data_tunnel_pairs:
  assumes "convert_data n lv = Inr d"
  shows "tunnel_pairs d =
     map (\<lambda>k. pair_record (group_endpoints (board lv) (mods lv) (mod_nums lv) k ! 0)
                            (group_endpoints (board lv) (mods lv) (mod_nums lv) k ! 1))
       (filter (\<lambda>k. length (group_endpoints (board lv) (mods lv) (mod_nums lv) k) = 2)
          (group_ids (board lv) (mods lv) (mod_nums lv)))"
proof -
  from convert_data_Inr(4)[OF assms] obtain eps
    where c: "collect_endpoints (board lv) (mods lv) (mod_nums lv) = Inr eps"
      and p: "pair_tunnels eps = Inr (tunnel_pairs d)" by blast
  from pair_tunnels_collected[OF c] p show ?thesis by simp
qed

lemma group_ids_iff:
  "k \<in> set (group_ids b ms mns) \<longleftrightarrow> group_endpoints b ms mns k \<noteq> []"
  by (auto simp: group_ids_def group_endpoints_def filter_empty_conv)

section \<open>The errors of the passes\<close>

lemma for_each_Inl:
  "for_each body xs s = Inl e \<Longrightarrow> \<exists>x\<in>set xs. \<exists>a. body x a = Inl e"
proof (induction xs arbitrary: s)
  case Nil
  then show ?case by simp
next
  case (Cons x xs)
  show ?case
  proof (cases "body x s")
    case (Inl e')
    with Cons.prems have "e' = e" by simp
    with Inl show ?thesis by auto
  next
    case (Inr s1)
    with Cons.prems have "for_each body xs s1 = Inl e" by simp
    from Cons.IH[OF this] show ?thesis by auto
  qed
qed

lemma init_cell_Inl:
  assumes "init_cell ms mns r cv acc = Inl e"
  shows "e = IndexError"
proof -
  obtain c v where cv: "cv = (c, v)" by (cases cv)
  obtain ip ds where acc: "acc = (ip, ds)" by (cases acc)
  from assms have run: "init_cell ms mns r (c, v) (ip, ds) = Inl e" by (simp add: cv acc)
  show ?thesis
  proof (cases "get2 ms r c")
    case (Inl e')
    with run have "e' = e" by (simp add: init_cell_eq)
    with get2_Inl[OF Inl] show ?thesis by simp
  next
    case (Inr m)
    show ?thesis
    proof (cases "get2 mns r c")
      case (Inl e')
      with run Inr have "e' = e"
        by (simp add: init_cell_eq split: option.splits if_splits)
      with get2_Inl[OF Inl] show ?thesis by simp
    next
      case k: (Inr k)
      with run Inr show ?thesis
        by (simp add: init_cell_eq split: option.splits if_splits)
    qed
  qed
qed

lemma tunnel_cell_Inl:
  assumes "tunnel_cell ms mns r cv acc = Inl e"
  shows "e = IndexError"
proof -
  obtain c v where cv: "cv = (c, v)" by (cases cv)
  from assms have run: "tunnel_cell ms mns r (c, v) acc = Inl e" by (simp add: cv)
  show ?thesis
  proof (cases "get2 ms r c")
    case (Inl e')
    with run have "e' = e" by (simp add: tunnel_cell_def)
    with get2_Inl[OF Inl] show ?thesis by simp
  next
    case (Inr m)
    show ?thesis
    proof (cases "get2 mns r c")
      case (Inl e')
      with run Inr have "e' = e"
        by (simp add: tunnel_cell_def split: if_splits)
      with get2_Inl[OF Inl] show ?thesis by simp
    next
      case k: (Inr k)
      with run Inr show ?thesis
        by (simp add: tunnel_cell_def split: if_splits)
    qed
  qed
qed

lemma gate_cell_Inl:
  assumes "gate_cell mns r cv acc = Inl e"
  shows "e = IndexError"
proof -
  obtain c v where cv: "cv = (c, v)" by (cases cv)
  obtain ga ac where acc: "acc = (ga, ac)" by (cases acc)
  from assms have run: "gate_cell mns r (c, v) (ga, ac) = Inl e" by (simp add: cv acc)
  show ?thesis
  proof (cases "get2 mns r c")
    case (Inl e')
    with run have "e' = e" by (simp add: gate_cell_def)
    with get2_Inl[OF Inl] show ?thesis by simp
  next
    case (Inr k)
    with run show ?thesis by (simp add: gate_cell_def split: if_splits)
  qed
qed

lemma station_cell_Inl:
  assumes "station_cell mns r cv acc = Inl e"
  shows "e = IndexError"
proof -
  obtain c v where cv: "cv = (c, v)" by (cases cv)
  from assms have run: "station_cell mns r (c, v) acc = Inl e" by (simp add: cv)
  show ?thesis
  proof (cases "get2 mns r c")
    case (Inl e')
    with run have "v = MOD_STATION \<and> e' = e" by (simp add: station_cell_def split: if_splits)
    with get2_Inl[OF Inl] show ?thesis by simp
  next
    case (Inr k)
    with run show ?thesis by (simp add: station_cell_def split: if_splits)
  qed
qed

lemma collect_init_Inl: "collect_init b ms mns = Inl e \<Longrightarrow> e = IndexError"
proof -
  assume "collect_init b ms mns = Inl e"
  then have "for_each (case_prod (init_cell ms mns)) (cells b) ([], []) = Inl e"
    by (simp add: collect_init_def for_cells_flat)
  from for_each_Inl[OF this] obtain x a where "case_prod (init_cell ms mns) x a = Inl e" by blast
  then show ?thesis by (cases x) (simp add: init_cell_Inl)
qed

lemma collect_endpoints_Inl: "collect_endpoints b ms mns = Inl e \<Longrightarrow> e = IndexError"
proof -
  assume "collect_endpoints b ms mns = Inl e"
  then have "for_each (case_prod (tunnel_cell ms mns)) (cells b) [] = Inl e"
    by (simp add: collect_endpoints_def for_cells_flat)
  from for_each_Inl[OF this] obtain x a where "case_prod (tunnel_cell ms mns) x a = Inl e" by blast
  then show ?thesis by (cases x) (simp add: tunnel_cell_Inl)
qed

lemma collect_gates_Inl: "collect_gates ms mns = Inl e \<Longrightarrow> e = IndexError"
proof -
  assume "collect_gates ms mns = Inl e"
  then have "for_each (case_prod (gate_cell mns)) (cells ms) ([], []) = Inl e"
    by (simp add: collect_gates_def for_cells_flat)
  from for_each_Inl[OF this] obtain x a where "case_prod (gate_cell mns) x a = Inl e" by blast
  then show ?thesis by (cases x) (simp add: gate_cell_Inl)
qed

lemma collect_stations_Inl: "collect_stations ms mns = Inl e \<Longrightarrow> e = IndexError"
proof -
  assume "collect_stations ms mns = Inl e"
  then have "for_each (case_prod (station_cell mns)) (cells ms) [] = Inl e"
    by (simp add: collect_stations_def for_cells_flat)
  from for_each_Inl[OF this] obtain x a where "case_prod (station_cell mns) x a = Inl e" by blast
  then show ?thesis by (cases x) (simp add: station_cell_Inl)
qed

lemma collect_cars_Inl:
  assumes "collect_cars cs = Inl e"
  shows "\<exists>c\<in>set cs. bad_car c \<and> e = KeyError_str (direction c)"
proof (cases "List.find bad_car cs")
  case None
  with assms show ?thesis by (simp add: collect_cars_eq)
next
  case (Some c)
  with assms have "e = KeyError_str (direction c)" by (simp add: collect_cars_eq)
  with find_bad_car_Some[OF Some] show ?thesis by blast
qed

lemma convert_data_Inl_cases:
  assumes "convert_data n lv = Inl e" and "find_target (board lv) = Some tg"
  shows "collect_cars (cars lv) = Inl e \<or>
         collect_init (board lv) (mods lv) (mod_nums lv) = Inl e \<or>
         collect_endpoints (board lv) (mods lv) (mod_nums lv) = Inl e \<or>
         (\<exists>eps. collect_endpoints (board lv) (mods lv) (mod_nums lv) = Inr eps \<and>
                pair_tunnels eps = Inl e) \<or>
         collect_gates (mods lv) (mod_nums lv) = Inl e \<or>
         collect_stations (mods lv) (mod_nums lv) = Inl e"
  using assms
  by (auto simp: convert_data_def Let_def split: sum.splits prod.splits)

lemma convert_data_errors:
  assumes "convert_data n lv = Inl e" and "has_target (board lv)"
  shows "e = IndexError \<or> (\<exists>c\<in>set (cars lv). bad_car c \<and> e = KeyError_str (direction c))"
proof -
  from assms(2) obtain tg where tg: "find_target (board lv) = Some tg"
    using find_target_None_iff[of "board lv"] by (cases "find_target (board lv)") auto
  from convert_data_Inl_cases[OF assms(1) tg]
  consider "collect_cars (cars lv) = Inl e"
    | "collect_init (board lv) (mods lv) (mod_nums lv) = Inl e"
    | "collect_endpoints (board lv) (mods lv) (mod_nums lv) = Inl e"
    | eps where "collect_endpoints (board lv) (mods lv) (mod_nums lv) = Inr eps"
        "pair_tunnels eps = Inl e"
    | "collect_gates (mods lv) (mod_nums lv) = Inl e"
    | "collect_stations (mods lv) (mod_nums lv) = Inl e"
    by blast
  then show ?thesis
  proof cases
    case 1
    from collect_cars_Inl[OF 1] show ?thesis by blast
  next
    case 2
    from collect_init_Inl[OF 2] show ?thesis by simp
  next
    case 3
    from collect_endpoints_Inl[OF 3] show ?thesis by simp
  next
    case 4
    from pair_tunnels_collected[OF 4(1)] 4(2) show ?thesis by simp
  next
    case 5
    from collect_gates_Inl[OF 5] show ?thesis by simp
  next
    case 6
    from collect_stations_Inl[OF 6] show ?thesis by simp
  qed
qed

section \<open>The passes on a well-formed level\<close>

lemma same_shape_get2:
  assumes "map length g = map length b" and "r < length b" and "c < length (b ! r)"
  shows "get2 g r c = Inr (g ! r ! c)"
proof -
  from assms(1) have len: "length g = length b" by (rule map_eq_imp_length_eq)
  with assms(2) have r: "r < length g" by simp
  from assms(1) have "map length g ! r = map length b ! r" by simp
  with r assms(2) have "length (g ! r) = length (b ! r)" by simp
  with assms(3) r show ?thesis by (simp add: get2_def)
qed

lemma for_cells_total:
  assumes "\<And>r c v s. r < length grid \<Longrightarrow> c < length (grid ! r) \<Longrightarrow> v = grid ! r ! c \<Longrightarrow>
             \<exists>s'. body r (c, v) s = Inr s'"
  shows "\<exists>s'. for_cells body grid s = Inr s'"
  unfolding for_cells_flat
proof (rule for_each_total)
  fix x s
  assume x: "x \<in> set (cells grid)"
  obtain r c v where xe: "x = (r, c, v)" by (cases x)
  from x have "r < length grid \<and> c < length (grid ! r) \<and> v = grid ! r ! c"
    by (simp add: xe in_cells_iff)
  with assms[of r c v s] show "\<exists>s'. case_prod body x s = Inr s'" by (simp add: xe)
qed

lemma collect_init_total:
  assumes "map length ms = map length b" and "map length mns = map length b"
  shows "\<exists>x. collect_init b ms mns = Inr x"
  unfolding collect_init_def
proof (rule for_cells_total)
  fix r c v and s :: "piece list \<times> tagged list"
  assume rc: "r < length b" "c < length (b ! r)"
  obtain ip ds where s: "s = (ip, ds)" by (cases s)
  show "\<exists>s'. init_cell ms mns r (c, v) s = Inr s'"
    by (simp add: s init_cell_eq same_shape_get2[OF assms(1) rc] same_shape_get2[OF assms(2) rc]
          split: option.splits)
qed

lemma collect_endpoints_total:
  assumes "map length ms = map length b" and "map length mns = map length b"
  shows "\<exists>x. collect_endpoints b ms mns = Inr x"
  unfolding collect_endpoints_def
proof (rule for_cells_total)
  fix r c v s
  assume rc: "r < length b" "c < length (b ! r)"
  show "\<exists>s'. tunnel_cell ms mns r (c, v) s = Inr s'"
    by (simp add: tunnel_cell_def same_shape_get2[OF assms(1) rc] same_shape_get2[OF assms(2) rc])
qed

lemma collect_gates_total:
  assumes "map length mns = map length ms"
  shows "\<exists>x. collect_gates ms mns = Inr x"
  unfolding collect_gates_def
proof (rule for_cells_total)
  fix r c v and s :: "gate list \<times> tagged list"
  assume rc: "r < length ms" "c < length (ms ! r)"
  obtain ga ac where s: "s = (ga, ac)" by (cases s)
  show "\<exists>s'. gate_cell mns r (c, v) s = Inr s'"
    by (simp add: s gate_cell_def same_shape_get2[OF assms rc])
qed

lemma collect_stations_total:
  assumes "map length mns = map length ms"
  shows "\<exists>x. collect_stations ms mns = Inr x"
  unfolding collect_stations_def
proof (rule for_cells_total)
  fix r c v s
  assume rc: "r < length ms" "c < length (ms ! r)"
  show "\<exists>s'. station_cell mns r (c, v) s = Inr s'"
    by (simp add: station_cell_def same_shape_get2[OF assms rc])
qed

lemma convert_data_well_formed:
  assumes "well_formed lv" and "has_target (board lv)"
  shows "\<exists>d. convert_data n lv = Inr d"
proof (cases "convert_data n lv")
  case (Inr d)
  then show ?thesis by blast
next
  case (Inl e)
  from assms(1) have ms: "map length (mods lv) = map length (board lv)"
    and mns: "map length (mod_nums lv) = map length (board lv)"
    and cs: "\<forall>c\<in>set (cars lv). \<not> bad_car c"
    by (simp_all add: well_formed_def list_all_iff)
  from ms mns have mm: "map length (mod_nums lv) = map length (mods lv)" by simp
  from assms(2) obtain tg where tg: "find_target (board lv) = Some tg"
    using find_target_None_iff[of "board lv"] by (cases "find_target (board lv)") auto
  from convert_data_Inl_cases[OF Inl tg]
  consider "collect_cars (cars lv) = Inl e"
    | "collect_init (board lv) (mods lv) (mod_nums lv) = Inl e"
    | "collect_endpoints (board lv) (mods lv) (mod_nums lv) = Inl e"
    | eps where "collect_endpoints (board lv) (mods lv) (mod_nums lv) = Inr eps"
        "pair_tunnels eps = Inl e"
    | "collect_gates (mods lv) (mod_nums lv) = Inl e"
    | "collect_stations (mods lv) (mod_nums lv) = Inl e"
    by blast
  then have False
  proof cases
    case 1
    from collect_cars_Inl[OF 1] cs show False by blast
  next
    case 2
    with collect_init_total[OF ms mns] show False by simp
  next
    case 3
    with collect_endpoints_total[OF ms mns] show False by simp
  next
    case 4
    from pair_tunnels_collected[OF 4(1)] 4(2) show False by simp
  next
    case 5
    with collect_gates_total[OF mm] show False by simp
  next
    case 6
    with collect_stations_total[OF mm] show False by simp
  qed
  then show ?thesis ..
qed

section \<open>What the conversion reads\<close>




section \<open>The target cell\<close>

text \<open>
  C3.  When the board holds a cell with code 3, a first such cell exists in the scanning
  order (rows from the top, columns from the left), and for that cell, at row \<open>r\<close> and
  column \<open>c\<close> counted from 0, the target search returns \<open>(r + 1, c + 1)\<close>; every
  successful conversion records this pair as its target and prints it in the
  \<^verbatim>\<open>TARGET\<close> line.  A board with exactly one such cell is a special case.
\<close>

theorem target_is_first_cell:
  assumes "has_target (board lv)"
  shows "(\<exists>r c. first_target_cell (board lv) r c) \<and>
         (\<forall>r c. first_target_cell (board lv) r c \<longrightarrow>
            find_target (board lv) = Some (r + 1, c + 1) \<and>
            (\<forall>d. convert_data n lv = Inr d \<longrightarrow>
               target d = (r + 1, c + 1) \<and>
               dzn_lines d ! 6 =
                 ''TARGET=('' @ str_nat (r + 1) @ '','' @ str_nat (c + 1) @ '');''))"
proof (intro conjI allI impI)
  show "\<exists>r c. first_target_cell (board lv) r c"
    using assms by (rule has_target_first_cell)
next
  fix r c assume "first_target_cell (board lv) r c"
  then show "find_target (board lv) = Some (r + 1, c + 1)"
    by (rule find_target_first_cell)
next
  fix r c d
  assume first: "first_target_cell (board lv) r c" and ok: "convert_data n lv = Inr d"
  from find_target_first_cell[OF first] convert_data_Inr(1)[OF ok]
  show tg: "target d = (r + 1, c + 1)" by simp
  show "dzn_lines d ! 6 = ''TARGET=('' @ str_nat (r + 1) @ '','' @ str_nat (c + 1) @ '');''"
    by (simp add: dzn_lines_target tg)
qed

theorem target_is_first_cell_witness:
  "has_target (board level_two_targets) \<and>
   first_target_cell (board level_two_targets) 1 1 \<and>
   find_target (board level_two_targets) = Some (2, 2) \<and>
   (\<exists>d. convert_data ''1-1'' level_two_targets = Inr d \<and> target d = (2, 2) \<and>
        dzn_lines d ! 6 = ''TARGET=(2,2);'')"
proof -
  have h: "has_target (board level_two_targets)"
    by (simp add: has_target_def level_two_targets_def)
  have f: "first_target_cell (board level_two_targets) 1 1"
    by (simp add: first_target_cell_def level_two_targets_def)
  have "case convert_data ''1-1'' level_two_targets of Inl e \<Rightarrow> False | Inr d \<Rightarrow> True"
    by code_simp
  then obtain d where d: "convert_data ''1-1'' level_two_targets = Inr d"
    by (cases "convert_data ''1-1'' level_two_targets") auto
  have "str_nat 2 = ''2''" by code_simp
  then have s: "str_nat (Suc (Suc 0)) = ''2''" by (simp only: numeral_2_eq_2)
  from target_is_first_cell[OF h, of "''1-1''"] f d s h show ?thesis
    by simp
qed

section \<open>Trains and decoys\<close>

text \<open>
  C7.  The cars loop succeeds exactly when no car of kind NORMAL or DECOY has a direction
  outside the table, and then the trains are the records of the cars of kind NORMAL and
  the decoys the records of the cars of kind DECOY, both in input order; the record of a
  car is (row + 1, column + 1, direction), with UP translated to TOP and every other
  direction kept.  Cars of any other kind appear in neither list.  A successful
  conversion stores these two lists.
\<close>

theorem trains_and_decoys:
  "(\<not> (\<exists>c\<in>set (cars lv). bad_car c) \<longrightarrow>
      collect_cars (cars lv) =
        Inr (map car_record (filter is_normal (cars lv)),
             map car_record (filter is_decoy (cars lv)))) \<and>
   (\<forall>tr de. collect_cars (cars lv) = Inr (tr, de) \<longrightarrow>
      tr = map car_record (filter is_normal (cars lv)) \<and>
      de = map car_record (filter is_decoy (cars lv)) \<and>
      \<not> (\<exists>c\<in>set (cars lv). bad_car c)) \<and>
   (\<forall>d. convert_data n lv = Inr d \<longrightarrow>
      trains d = map car_record (filter is_normal (cars lv)) \<and>
      decoys d = map car_record (filter is_decoy (cars lv)))"
proof -
  have total: "\<not> (\<exists>c\<in>set (cars lv). bad_car c) \<longrightarrow>
      collect_cars (cars lv) =
        Inr (map car_record (filter is_normal (cars lv)),
             map car_record (filter is_decoy (cars lv)))"
    by (auto simp: collect_cars_eq split: option.splits dest: find_bad_car_Some)
  have partial: "\<And>tr de. collect_cars (cars lv) = Inr (tr, de) \<Longrightarrow>
      tr = map car_record (filter is_normal (cars lv)) \<and>
      de = map car_record (filter is_decoy (cars lv)) \<and>
      \<not> (\<exists>c\<in>set (cars lv). bad_car c)"
    by (auto simp: collect_cars_eq find_bad_car_None split: option.splits)
  have conv: "\<And>d. convert_data n lv = Inr d \<Longrightarrow>
      trains d = map car_record (filter is_normal (cars lv)) \<and>
      decoys d = map car_record (filter is_decoy (cars lv))"
    using partial convert_data_Inr(2) by blast
  from total partial conv show ?thesis by blast
qed

theorem trains_and_decoys_witness:
  "collect_cars (cars level_cars) = Inr ([(1, 2, ''TOP''), (2, 2, ''DOWN'')], [(3, 1, ''LEFT'')]) \<and>
   map car_record (filter is_normal (cars level_cars)) = [(1, 2, ''TOP''), (2, 2, ''DOWN'')] \<and>
   map car_record (filter is_decoy (cars level_cars)) = [(3, 1, ''LEFT'')] \<and>
   \<not> (\<exists>c\<in>set (cars level_cars). bad_car c)"
proof -
  have run: "collect_cars (cars level_cars) =
      Inr ([(1, 2, ''TOP''), (2, 2, ''DOWN'')], [(3, 1, ''LEFT'')])"
    by code_simp
  from trains_and_decoys[of level_cars] run show ?thesis by simp
qed

section \<open>Cars with an unknown direction\<close>

text \<open>
  C10, as the claim states it, fails on a board without target cell: there the
  conversion raises the error of the target search before it reads any car, so the error
  is not a failed lookup in the direction table.
\<close>

theorem unknown_direction_lookup_counterexample:
  "\<lparr>car_type = ''NORMAL'', pos = (0, 0), direction = ''NORTH''\<rparr>
     \<in> set (cars level_no_target_bad_direction) \<and>
   \<not> known_direction ''NORTH'' \<and>
   convert_level ''1-1'' level_no_target_bad_direction
     = Inl (ValueError ''No target found for level 1-1'') \<and>
   convert_level ''1-1'' level_no_target_bad_direction \<noteq> Inl (KeyError_str ''NORTH'')"
proof -
  have run: "convert_level ''1-1'' level_no_target_bad_direction
      = Inl (ValueError ''No target found for level 1-1'')"
    by code_simp
  show ?thesis
    by (simp add: run) (simp add: level_no_target_bad_direction_def known_direction_def)
qed

text \<open>
  C10, amended.  When some car of kind NORMAL or DECOY has a direction that is not RIGHT,
  LEFT, UP or DOWN, the conversion raises an error instead of dropping the car: on a
  board with a target cell the failed lookup of the first such car's direction, on a
  board without one the error of the target search.  In the loop of \<^verbatim>\<open>main\<close> the
  level's text is never written (the file system is left as it was or as \<^verbatim>\<open>mkdir\<close>
  left it, and the count of converted levels is unchanged); when the conversion is
  reached the failure is reported under the level's name; and the loop goes on with the
  levels that follow.
\<close>

theorem unknown_direction_fails:
  assumes "c \<in> set (cars lv)" and "is_normal c \<or> is_decoy c"
    and "\<not> known_direction (direction c)"
  shows "(\<exists>e. convert_level n lv = Inl e \<and>
            (reaches_conversion ops a n st \<longrightarrow>
               process_level ops a (n, lv) st =
                 st\<lparr>fs := snd (mkdir ops (out_dir_of ops a n) (fs st)),
                    stderr := stderr st @ [(n, e)]\<rparr>)) \<and>
         (has_target (board lv) \<longrightarrow>
            (\<exists>c'. List.find bad_car (cars lv) = Some c' \<and>
                  convert_level n lv = Inl (KeyError_str (direction c')))) \<and>
         (\<not> has_target (board lv) \<longrightarrow>
            convert_level n lv = Inl (ValueError (''No target found for level '' @ n))) \<and>
         converted (process_level ops a (n, lv) st) = converted st \<and>
         (fs (process_level ops a (n, lv) st) = fs st \<or>
          fs (process_level ops a (n, lv) st) = snd (mkdir ops (out_dir_of ops a n) (fs st))) \<and>
         run_levels ops a (xs @ (n, lv) # ys) st =
           run_levels ops a ys (process_level ops a (n, lv) (run_levels ops a xs st))"
proof -
  from assms have "\<exists>c\<in>set (cars lv). bad_car c" by (auto simp: bad_car_def)
  then obtain c' where c': "List.find bad_car (cars lv) = Some c'"
    using find_bad_car_None[of "cars lv"] by (cases "List.find bad_car (cars lv)") auto
  then have cars_err: "collect_cars (cars lv) = Inl (KeyError_str (direction c'))"
    by (simp add: collect_cars_eq)
  have with_target: "has_target (board lv) \<Longrightarrow>
      convert_level n lv = Inl (KeyError_str (direction c'))"
  proof -
    assume "has_target (board lv)"
    then obtain tg where "find_target (board lv) = Some tg"
      using find_target_None_iff[of "board lv"] by (cases "find_target (board lv)") auto
    from convert_data_cars_error[OF this cars_err] show ?thesis
      by (simp add: convert_level_Inl_iff)
  qed
  have without_target: "\<not> has_target (board lv) \<Longrightarrow>
      convert_level n lv = Inl (ValueError (''No target found for level '' @ n))"
    by (simp add: convert_level_Inl_iff convert_data_no_target)
  have "\<exists>e. convert_level n lv = Inl e"
    using with_target without_target by (cases "has_target (board lv)") blast+
  then obtain e where e: "convert_level n lv = Inl e" ..
  have reached: "reaches_conversion ops a n st \<longrightarrow>
      process_level ops a (n, lv) st =
        st\<lparr>fs := snd (mkdir ops (out_dir_of ops a n) (fs st)),
           stderr := stderr st @ [(n, e)]\<rparr>"
    using process_level_reached_failure[OF e] by blast
  from e reached with_target without_target c'
    process_level_failure_no_write[OF e, of ops a st]
    run_levels_continues[of ops a xs "(n, lv)" ys st]
  show ?thesis by blast
qed

theorem unknown_direction_fails_witness:
  "\<lparr>car_type = ''DECOY'', pos = (2, 0), direction = ''NORTH''\<rparr> \<in> set (cars level_bad_direction) \<and>
   \<not> known_direction ''NORTH'' \<and>
   has_target (board level_bad_direction) \<and>
   convert_level ''3-2'' level_bad_direction = Inl (KeyError_str ''NORTH'') \<and>
   reaches_conversion ops_simple args_default ''3-2'' state_empty \<and>
   fs (process_level ops_simple args_default (''3-2'', level_bad_direction) state_empty)
     = Map.empty \<and>
   stderr (process_level ops_simple args_default (''3-2'', level_bad_direction) state_empty)
     = [(''3-2'', KeyError_str ''NORTH'')]"
proof -
  let ?c = "\<lparr>car_type = ''DECOY'', pos = (2, 0), direction = ''NORTH''\<rparr>"
  have in_cars: "?c \<in> set (cars level_bad_direction)"
    by (simp add: level_bad_direction_def)
  have kind: "is_normal ?c \<or> is_decoy ?c" by (simp add: is_decoy_def)
  have unknown: "\<not> known_direction (direction ?c)" by (simp add: known_direction_def)
  have tg: "has_target (board level_bad_direction)"
    by (simp add: has_target_def level_bad_direction_def)
  have first: "List.find bad_car (cars level_bad_direction) = Some ?c"
    by (simp add: level_bad_direction_def bad_car_def is_normal_def is_decoy_def
          known_direction_def)
  have reach: "reaches_conversion ops_simple args_default ''3-2'' state_empty"
    by (simp add: reaches_conversion_def args_default_def state_empty_def startswith_def
          prefix_mismatch_def ops_simple_def out_dir_of_def output_path_of_def)
  have mk: "snd (mkdir ops_simple (out_dir_of ops_simple args_default ''3-2'') (fs state_empty))
      = Map.empty"
    by (simp add: ops_simple_def state_empty_def)
  have err0: "stderr state_empty = []"
    by (simp add: state_empty_def)
  from unknown_direction_fails[OF in_cars kind unknown,
      of "''3-2''" ops_simple args_default state_empty "[]" "[]"]
    tg first reach mk err0 unknown in_cars
  show ?thesis by auto
qed

section \<open>Board codes without a piece\<close>

text \<open>
  C6.  Take a cell of the board whose modifier is not the tunnel code and whose board
  code has no piece in the translation table, either because the table maps it to
  \<^verbatim>\<open>None\<close> or because the table has no entry for it.  In both cases the lookup gives
  \<^verbatim>\<open>None\<close>, the iteration of the placement loop on this cell raises nothing and
  returns the two lists as it found them (the group numbers are not even read), and
  a successful conversion has no initial placement at the position of the cell.
\<close>

theorem untranslated_codes_are_skipped:
  assumes "r < length (board lv)" and "c < length (board lv ! r)"
    and "map_of BOARD_TO_TRACK (board lv ! r ! c) = None \<or>
         map_of BOARD_TO_TRACK (board lv ! r ! c) = Some None"
    and "get2 (mods lv) r c = Inr m" and "m \<noteq> MOD_TUNNEL"
  shows "dict_get BOARD_TO_TRACK (board lv ! r ! c) = None \<and>
         init_cell (mods lv) (mod_nums lv) r (c, board lv ! r ! c) acc = Inr acc \<and>
         (\<forall>d. convert_data n lv = Inr d \<longrightarrow> (\<forall>t. (r + 1, c + 1, t) \<notin> set (init_pos d)))"
proof -
  from assms(3) have none: "dict_get BOARD_TO_TRACK (board lv ! r ! c) = None"
    by (auto simp: dict_get_def)
  then have placed: "placed_token m (board lv ! r ! c) = None"
    by (simp add: placed_token_def)
  obtain ip ds where acc: "acc = (ip, ds)" by (cases acc)
  have step: "init_cell (mods lv) (mod_nums lv) r (c, board lv ! r ! c) acc = Inr acc"
    by (simp add: acc init_cell_eq assms(4) placed)
  have out: "(r + 1, c + 1, t) \<notin> set (init_pos d)" if ok: "convert_data n lv = Inr d" for d t
  proof -
    have mv: "mods lv ! r ! c = m" using get2_Inr[OF assms(4)] by simp
    from in_init_pos_iff[OF convert_data_Inr(3)[OF ok], of r c t] placed mv
    show ?thesis by simp
  qed
  from none step out show ?thesis by blast
qed

theorem untranslated_codes_are_skipped_witness:
  "map_of BOARD_TO_TRACK 0 = Some None \<and> map_of BOARD_TO_TRACK 23 = None \<and>
   init_cell (mods level_skipped_codes) (mod_nums level_skipped_codes) 0 (0, 0) ([], []) = Inr ([], []) \<and>
   init_cell (mods level_skipped_codes) (mod_nums level_skipped_codes) 0 (1, 23) ([], []) = Inr ([], []) \<and>
   (\<exists>d. convert_data ''1-1'' level_skipped_codes = Inr d \<and>
        (\<forall>t. (1, 1, t) \<notin> set (init_pos d)) \<and> (\<forall>t. (1, 2, t) \<notin> set (init_pos d)) \<and>
        init_pos d = [(1, 3, ''STRAIGHT_RL'')])"
proof -
  let ?L = level_skipped_codes
  have b0: "board ?L ! 0 ! 0 = 0" and b1: "board ?L ! 0 ! 1 = 23"
    by (simp_all add: level_skipped_codes_def)
  have r: "0 < length (board ?L)" and c0: "0 < length (board ?L ! 0)"
    and c1: "1 < length (board ?L ! 0)"
    by (simp_all add: level_skipped_codes_def)
  have t0: "map_of BOARD_TO_TRACK 0 = Some None" and t1: "map_of BOARD_TO_TRACK 23 = None"
    by (simp_all add: BOARD_TO_TRACK_def)
  have m0: "get2 (mods ?L) 0 0 = Inr 0" and m1: "get2 (mods ?L) 0 1 = Inr 0"
    by (simp_all add: level_skipped_codes_def get2_def)
  have nt: "(0::int) \<noteq> MOD_TUNNEL" by (simp add: MOD_defs)
  have "case convert_data ''1-1'' ?L of Inl e \<Rightarrow> False
        | Inr d \<Rightarrow> init_pos d = [(1, 3, ''STRAIGHT_RL'')]"
    by code_simp
  then obtain d where d: "convert_data ''1-1'' ?L = Inr d"
    and ip: "init_pos d = [(1, 3, ''STRAIGHT_RL'')]"
    by (cases "convert_data ''1-1'' ?L") auto
  from untranslated_codes_are_skipped[OF r c0 _ m0 nt, of "([], [])" "''1-1''"] t0 b0 d
  have A: "init_cell (mods ?L) (mod_nums ?L) 0 (0, 0) ([], []) = Inr ([], [])"
    "\<forall>t. (1, 1, t) \<notin> set (init_pos d)"
    by simp_all
  from untranslated_codes_are_skipped[OF r c1 _ m1 nt, of "([], [])" "''1-1''"] t1 b1 d
  have B: "init_cell (mods ?L) (mod_nums ?L) 0 (1, 23) ([], []) = Inr ([], [])"
    "\<forall>t. (1, 2, t) \<notin> set (init_pos d)"
    by (simp_all add: numeral_2_eq_2)
  from A B t0 t1 d ip show ?thesis by blast
qed

section \<open>Toggled three-way switches\<close>

text \<open>
  C4.  Take a cell of the board whose modifier is the swapping code 5 or the rail code 7
  and whose board code the table translates to a token with the prefix \<^verbatim>\<open>SWITCH_\<close>.
  The token placed for the cell is the table's token with that prefix rewritten to
  \<^verbatim>\<open>DSWITCH_\<close> for code 5 and to \<^verbatim>\<open>ESWITCH_\<close> for code 7.  The iteration of the
  placement loop on the cell reads the group number of the cell, appends the rewritten
  piece to the initial placements whatever the number is, and appends the cell with
  the number to the toggled-switch list exactly when the number is positive.  Hence
  in a successful conversion the only initial placement at the position of the cell is
  the rewritten piece, and the toggled-switch list has an entry at that position if and
  only if the group number is positive, the entry then carrying this number.
\<close>

theorem toggled_switch_cells:
  assumes "r < length (board lv)" and "c < length (board lv ! r)"
    and "get2 (mods lv) r c = Inr m"
    and "m = MOD_SWAPPING_TRACK \<or> m = MOD_SWITCH_RAIL"
    and "dict_get BOARD_TO_TRACK (board lv ! r ! c) = Some t"
    and "startswith t ''SWITCH_''"
  shows "placed_token m (board lv ! r ! c) = Some (toggled_token m t) \<and>
         (\<forall>ip ds. init_cell (mods lv) (mod_nums lv) r (c, board lv ! r ! c) (ip, ds) =
            (case get2 (mod_nums lv) r c of
               Inl e \<Rightarrow> Inl e
             | Inr k \<Rightarrow> Inr (ip @ [(r + 1, c + 1, toggled_token m t)],
                           if k > 0 then ds @ [(r + 1, c + 1, k)] else ds))) \<and>
         (\<forall>d. convert_data n lv = Inr d \<longrightarrow>
            get2 (mod_nums lv) r c = Inr (mod_nums lv ! r ! c) \<and>
            (\<forall>t'. (r + 1, c + 1, t') \<in> set (init_pos d) \<longleftrightarrow> t' = toggled_token m t) \<and>
            (\<forall>k. (r + 1, c + 1, k) \<in> set (dswitches d) \<longleftrightarrow>
                   k = mod_nums lv ! r ! c \<and> 0 < k))"
proof -
  let ?v = "board lv ! r ! c"
  have mv: "mods lv ! r ! c = m" using get2_Inr[OF assms(3)] by simp
  have tog: "toggled_switch m ?v"
    using assms(4,6) by (simp add: toggled_switch_def assms(5))
  have placed: "placed_token m ?v = Some (toggled_token m t)"
  proof (cases "m = MOD_SWAPPING_TRACK")
    case True
    then show ?thesis
      by (simp add: placed_token_def assms(5,6) toggled_token_def MOD_defs
            replace_switch_prefix(1)[OF assms(5,6)])
  next
    case False
    with assms(4) have "m = MOD_SWITCH_RAIL" by simp
    then show ?thesis
      by (simp add: placed_token_def assms(5,6) toggled_token_def MOD_defs
            replace_switch_prefix(2)[OF assms(5,6)])
  qed
  have step: "init_cell (mods lv) (mod_nums lv) r (c, ?v) (ip, ds) =
            (case get2 (mod_nums lv) r c of
               Inl e \<Rightarrow> Inl e
             | Inr k \<Rightarrow> Inr (ip @ [(r + 1, c + 1, toggled_token m t)],
                           if k > 0 then ds @ [(r + 1, c + 1, k)] else ds))" for ip ds
    by (simp add: init_cell_eq assms(3) placed tog)
  have out: "get2 (mod_nums lv) r c = Inr (mod_nums lv ! r ! c) \<and>
            (\<forall>t'. (r + 1, c + 1, t') \<in> set (init_pos d) \<longleftrightarrow> t' = toggled_token m t) \<and>
            (\<forall>k. (r + 1, c + 1, k) \<in> set (dswitches d) \<longleftrightarrow>
                   k = mod_nums lv ! r ! c \<and> 0 < k)"
    if ok: "convert_data n lv = Inr d" for d
  proof -
    note ci = convert_data_Inr(3)[OF ok]
    from collect_init_cell_ok[OF ci assms(1,2)] obtain a a'
      where run: "init_cell (mods lv) (mod_nums lv) r (c, ?v) a = Inr a'" by blast
    obtain ip ds where a: "a = (ip, ds)" by (cases a)
    from run have "\<exists>k. get2 (mod_nums lv) r c = Inr k"
      by (cases "get2 (mod_nums lv) r c") (simp_all add: a step)
    then obtain k where k: "get2 (mod_nums lv) r c = Inr k" ..
    have rd: "get2 (mod_nums lv) r c = Inr (mod_nums lv ! r ! c)"
      using get2_Inr[OF k] k by simp
    have ip: "\<And>t'. (r + 1, c + 1, t') \<in> set (init_pos d) \<longleftrightarrow> t' = toggled_token m t"
      using in_init_pos_iff[OF ci, of r c] assms(1,2) placed mv by auto
    have dsw: "\<And>k. (r + 1, c + 1, k) \<in> set (dswitches d) \<longleftrightarrow> k = mod_nums lv ! r ! c \<and> 0 < k"
      using in_dswitches_iff[OF ci, of r c] assms(1,2) tog mv by auto
    from rd ip dsw show ?thesis by blast
  qed
  from placed step out show ?thesis by blast
qed

theorem toggled_switch_cells_witness:
  "get2 (mods level_switches) 0 0 = Inr 5 \<and> get2 (mods level_switches) 0 1 = Inr 7 \<and>
   dict_get BOARD_TO_TRACK 9 = Some ''SWITCH_L_R_D'' \<and>
   dict_get BOARD_TO_TRACK 13 = Some ''SWITCH_L_R_T'' \<and>
   (\<exists>d. convert_data ''1-1'' level_switches = Inr d \<and>
        (1, 1, ''DSWITCH_L_R_D'') \<in> set (init_pos d) \<and> (1, 1, 2) \<in> set (dswitches d) \<and>
        (1, 2, ''ESWITCH_L_R_T'') \<in> set (init_pos d) \<and> (1, 2, 0) \<notin> set (dswitches d) \<and>
        init_pos d = [(1, 1, ''DSWITCH_L_R_D''), (1, 2, ''ESWITCH_L_R_T''),
                      (1, 3, ''SWITCH_T_D_R''), (1, 4, ''STRAIGHT_RL'')] \<and>
        dswitches d = [(1, 1, 2)])"
proof -
  let ?L = level_switches
  have r: "0 < length (board ?L)" and c0: "0 < length (board ?L ! 0)"
    and c1: "1 < length (board ?L ! 0)"
    by (simp_all add: level_switches_def)
  have m0: "get2 (mods ?L) 0 0 = Inr 5" and m1: "get2 (mods ?L) 0 1 = Inr 7"
    by (simp_all add: level_switches_def get2_def)
  have k0: "(5::int) = MOD_SWAPPING_TRACK \<or> (5::int) = MOD_SWITCH_RAIL"
    and k1: "(7::int) = MOD_SWAPPING_TRACK \<or> (7::int) = MOD_SWITCH_RAIL"
    by (simp_all add: MOD_defs)
  have t0: "dict_get BOARD_TO_TRACK (board ?L ! 0 ! 0) = Some ''SWITCH_L_R_D''"
    and t1: "dict_get BOARD_TO_TRACK (board ?L ! 0 ! 1) = Some ''SWITCH_L_R_T''"
    by (simp_all add: level_switches_def dict_get_def BOARD_TO_TRACK_def)
  have s0: "startswith ''SWITCH_L_R_D'' ''SWITCH_''" and s1: "startswith ''SWITCH_L_R_T'' ''SWITCH_''"
    by (simp_all add: startswith_def)
  have n0: "mod_nums ?L ! 0 ! 0 = 2" and n1: "mod_nums ?L ! 0 ! 1 = 0"
    by (simp_all add: level_switches_def)
  have tok: "toggled_token 5 ''SWITCH_L_R_D'' = ''DSWITCH_L_R_D''"
    "toggled_token 7 ''SWITCH_L_R_T'' = ''ESWITCH_L_R_T''"
    by (simp_all add: toggled_token_def MOD_defs)
  have "case convert_data ''1-1'' ?L of Inl e \<Rightarrow> False
        | Inr d \<Rightarrow> init_pos d = [(1, 1, ''DSWITCH_L_R_D''), (1, 2, ''ESWITCH_L_R_T''),
                      (1, 3, ''SWITCH_T_D_R''), (1, 4, ''STRAIGHT_RL'')] \<and>
                   dswitches d = [(1, 1, 2)]"
    by code_simp
  then obtain d where d: "convert_data ''1-1'' ?L = Inr d"
    and lists: "init_pos d = [(1, 1, ''DSWITCH_L_R_D''), (1, 2, ''ESWITCH_L_R_T''),
                      (1, 3, ''SWITCH_T_D_R''), (1, 4, ''STRAIGHT_RL'')]"
      "dswitches d = [(1, 1, 2)]"
    by (cases "convert_data ''1-1'' ?L") auto
  from toggled_switch_cells[OF r c0 m0 k0 t0 s0, of "''1-1''"] d n0 tok
  have A: "(1, 1, ''DSWITCH_L_R_D'') \<in> set (init_pos d)" "(1, 1, 2) \<in> set (dswitches d)"
    by simp_all
  from toggled_switch_cells[OF r c1 m1 k1 t1 s1, of "''1-1''"] d n1 tok
  have B: "(1, 2, ''ESWITCH_L_R_T'') \<in> set (init_pos d)" "(1, 2, 0) \<notin> set (dswitches d)"
    by (simp_all add: numeral_2_eq_2)
  have tabs: "dict_get BOARD_TO_TRACK 9 = Some ''SWITCH_L_R_D''"
    "dict_get BOARD_TO_TRACK 13 = Some ''SWITCH_L_R_T''"
    by (simp_all add: dict_get_def BOARD_TO_TRACK_def)
  from A B m0 m1 tabs d lists show ?thesis by blast
qed

section \<open>The record of a tunnel pair\<close>

text \<open>
  C1, as the claim states it, fails: the record of a group with two endpoints pairs each
  position with the direction of the mouth's own board code, not with the direction of
  the other mouth's code.  In the level below group 1 has the mouths \<open>(1, 1)\<close> with code
  17 (left) and \<open>(1, 3)\<close> with code 19 (down); the record is
  \<open>(1, 1, LEFT, 1, 3, DOWN)\<close>, and the record of the claim, \<open>(1, 1, DOWN, 1, 3, LEFT)\<close>,
  is not written.
\<close>

theorem tunnel_pair_own_directions_counterexample:
  "group_endpoints (board level_tunnel_pair) (mods level_tunnel_pair) (mod_nums level_tunnel_pair) 1
     = [((1, 1), 17), ((1, 3), 19)] \<and>
   exit_direction 17 = ''LEFT'' \<and> exit_direction 19 = ''DOWN'' \<and>
   (\<exists>d. convert_data ''1-1'' level_tunnel_pair = Inr d \<and>
        tunnel_pairs d = [(1, 1, ''LEFT'', 1, 3, ''DOWN'')] \<and>
        (1, 1, ''DOWN'', 1, 3, ''LEFT'') \<notin> set (tunnel_pairs d))"
proof -
  have g: "group_endpoints (board level_tunnel_pair) (mods level_tunnel_pair)
             (mod_nums level_tunnel_pair) 1 = [((1, 1), 17), ((1, 3), 19)]"
    by code_simp
  have e: "exit_direction 17 = ''LEFT''" "exit_direction 19 = ''DOWN''"
    by (simp_all add: exit_direction_def TUNNEL_DIR_def)
  have "case convert_data ''1-1'' level_tunnel_pair of Inl e \<Rightarrow> False
        | Inr d \<Rightarrow> tunnel_pairs d = [(1, 1, ''LEFT'', 1, 3, ''DOWN'')]"
    by code_simp
  then obtain d where d: "convert_data ''1-1'' level_tunnel_pair = Inr d"
    and tp: "tunnel_pairs d = [(1, 1, ''LEFT'', 1, 3, ''DOWN'')]"
    by (cases "convert_data ''1-1'' level_tunnel_pair") auto
  have "(1, 1, ''DOWN'', 1, 3, ''LEFT'') \<notin> set (tunnel_pairs d)"
    by (simp add: tp)
  with g e d tp show ?thesis by blast
qed

text \<open>
  C1, amended.  In a successful conversion, a group whose endpoints, collected in the
  order of the scan, are exactly two mouths \<open>((r1, c1), v1)\<close> and \<open>((r2, c2), v2)\<close>
  gives the record \<open>(r1, c1, TUNNEL_DIR[v1], r2, c2, TUNNEL_DIR[v2])\<close>: each mouth's
  direction is the direction of its own board code, both codes being keys of the table.
  The list of records holds one such record for each group with exactly two endpoints,
  in ascending order of the group numbers.
\<close>

theorem tunnel_pair_directions:
  assumes "convert_data n lv = Inr d"
    and "group_endpoints (board lv) (mods lv) (mod_nums lv) k = [((r1, c1), v1), ((r2, c2), v2)]"
  shows "(r1, c1, exit_direction v1, r2, c2, exit_direction v2) \<in> set (tunnel_pairs d) \<and>
         dict_mem v1 TUNNEL_DIR \<and> dict_mem v2 TUNNEL_DIR \<and>
         tunnel_pairs d =
           map (\<lambda>k. pair_record (group_endpoints (board lv) (mods lv) (mod_nums lv) k ! 0)
                                  (group_endpoints (board lv) (mods lv) (mod_nums lv) k ! 1))
             (filter (\<lambda>k. length (group_endpoints (board lv) (mods lv) (mod_nums lv) k) = 2)
                (group_ids (board lv) (mods lv) (mod_nums lv)))"
proof -
  let ?G = "group_endpoints (board lv) (mods lv) (mod_nums lv)"
  note all = convert_data_tunnel_pairs[OF assms(1)]
  have len: "length (?G k) = 2" by (simp add: assms(2))
  have "?G k \<noteq> []" by (simp add: assms(2))
  then have k: "k \<in> set (group_ids (board lv) (mods lv) (mod_nums lv))"
    by (simp add: group_ids_iff)
  have rec: "pair_record (?G k ! 0) (?G k ! 1) = (r1, c1, exit_direction v1, r2, c2, exit_direction v2)"
    by (simp add: assms(2) pair_record_def)
  let ?f = "\<lambda>k. pair_record (?G k ! 0) (?G k ! 1)"
  let ?ks = "filter (\<lambda>k. length (?G k) = 2) (group_ids (board lv) (mods lv) (mod_nums lv))"
  from k len have "k \<in> set ?ks" by simp
  then have "?f k \<in> ?f ` set ?ks" by (rule imageI)
  then have "?f k \<in> set (map ?f ?ks)" by (simp only: set_map)
  then have "pair_record (?G k ! 0) (?G k ! 1) \<in> set (tunnel_pairs d)"
    by (simp only: all)
  then have mem: "(r1, c1, exit_direction v1, r2, c2, exit_direction v2) \<in> set (tunnel_pairs d)"
    by (simp only: rec)
  have in1: "((r1, c1), v1) \<in> set (?G k)" and in2: "((r2, c2), v2) \<in> set (?G k)"
    by (simp_all add: assms(2))
  have codes: "dict_mem v1 TUNNEL_DIR" "dict_mem v2 TUNNEL_DIR"
    using group_endpoints_codes[OF in1] group_endpoints_codes[OF in2] by simp_all
  from mem codes all show ?thesis by blast
qed

theorem tunnel_pair_directions_witness:
  "group_endpoints (board level_tunnel_pair) (mods level_tunnel_pair) (mod_nums level_tunnel_pair) 1
     = [((1, 1), 17), ((1, 3), 19)] \<and>
   (\<exists>d. convert_data ''1-1'' level_tunnel_pair = Inr d \<and>
        (1, 1, ''LEFT'', 1, 3, ''DOWN'') \<in> set (tunnel_pairs d) \<and>
        dzn_lines d =
          [''W=3;'', ''H=2;'', '''', ''MAX_TIME=W*H;'', ''MAX_TRACKS=2;'', '''',
           ''TARGET=(2,1);'', '''', ''TRAINS=[];'', ''DECOYS=[];'', '''', ''INIT_POS=['',
           ''(1,2,STRAIGHT_RL),'', ''(2,1,STRAIGHT_RL),'', ''(2,2,STRAIGHT_RL),'',
           ''(2,3,STRAIGHT_RL),'', ''];'', ''TUNNEL_PAIRS=['',
           ''  (1, 1, LEFT, 1, 3, DOWN),'', ''];'', '''', ''GATES=[];'', ''ACTIVATIONS=[];'',
           '''', ''DSWITCHES=[];'', ''STATIONS=[];''])"
proof -
  let ?L = level_tunnel_pair
  have g: "group_endpoints (board ?L) (mods ?L) (mod_nums ?L) 1 = [((1, 1), 17), ((1, 3), 19)]"
    by code_simp
  have e: "exit_direction 17 = ''LEFT''" "exit_direction 19 = ''DOWN''"
    by (simp_all add: exit_direction_def TUNNEL_DIR_def)
  have "case convert_data ''1-1'' ?L of Inl e \<Rightarrow> False
        | Inr d \<Rightarrow> dzn_lines d =
          [''W=3;'', ''H=2;'', '''', ''MAX_TIME=W*H;'', ''MAX_TRACKS=2;'', '''',
           ''TARGET=(2,1);'', '''', ''TRAINS=[];'', ''DECOYS=[];'', '''', ''INIT_POS=['',
           ''(1,2,STRAIGHT_RL),'', ''(2,1,STRAIGHT_RL),'', ''(2,2,STRAIGHT_RL),'',
           ''(2,3,STRAIGHT_RL),'', ''];'', ''TUNNEL_PAIRS=['',
           ''  (1, 1, LEFT, 1, 3, DOWN),'', ''];'', '''', ''GATES=[];'', ''ACTIVATIONS=[];'',
           '''', ''DSWITCHES=[];'', ''STATIONS=[];'']"
    by code_simp
  then obtain d where d: "convert_data ''1-1'' ?L = Inr d"
    and out: "dzn_lines d =
          [''W=3;'', ''H=2;'', '''', ''MAX_TIME=W*H;'', ''MAX_TRACKS=2;'', '''',
           ''TARGET=(2,1);'', '''', ''TRAINS=[];'', ''DECOYS=[];'', '''', ''INIT_POS=['',
           ''(1,2,STRAIGHT_RL),'', ''(2,1,STRAIGHT_RL),'', ''(2,2,STRAIGHT_RL),'',
           ''(2,3,STRAIGHT_RL),'', ''];'', ''TUNNEL_PAIRS=['',
           ''  (1, 1, LEFT, 1, 3, DOWN),'', ''];'', '''', ''GATES=[];'', ''ACTIVATIONS=[];'',
           '''', ''DSWITCHES=[];'', ''STATIONS=[];'']"
    by (cases "convert_data ''1-1'' ?L") auto
  from tunnel_pair_directions[OF d g]
  have "(1, 1, exit_direction 17, 1, 3, exit_direction 19) \<in> set (tunnel_pairs d)"
    by (rule conjunct1)
  then have "(1, 1, ''LEFT'', 1, 3, ''DOWN'') \<in> set (tunnel_pairs d)"
    by (simp only: e)
  with g d out show ?thesis by blast
qed

section \<open>Tunnel groups without a pair\<close>

text \<open>
  C5.  Once the endpoints are collected, the pairing loop runs over the group numbers
  in ascending order; these are exactly the numbers with at least one endpoint, so a
  number with no endpoint is never visited.  The iteration for a group whose endpoint
  list has not exactly two entries raises nothing and leaves the list of records
  unchanged; the iteration for a group with exactly two endpoints appends one record.
  The loop as a whole raises nothing and returns one record for each group with exactly
  two endpoints and nothing else, so a successful conversion has as many tunnel-pair
  records as there are groups with exactly two endpoints.
\<close>

theorem tunnel_groups_paired:
  assumes "collect_endpoints (board lv) (mods lv) (mod_nums lv) = Inr eps"
  shows "sort (map fst eps) = group_ids (board lv) (mods lv) (mod_nums lv) \<and>
         (\<forall>k. k \<in> set (group_ids (board lv) (mods lv) (mod_nums lv)) \<longleftrightarrow>
              group_endpoints (board lv) (mods lv) (mod_nums lv) k \<noteq> []) \<and>
         (\<forall>k tp. k \<in> set (group_ids (board lv) (mods lv) (mod_nums lv)) \<and>
                 length (group_endpoints (board lv) (mods lv) (mod_nums lv) k) \<noteq> 2 \<longrightarrow>
                 pair_step eps k tp = Inr tp) \<and>
         (\<forall>k tp. length (group_endpoints (board lv) (mods lv) (mod_nums lv) k) = 2 \<longrightarrow>
                 pair_step eps k tp =
                   Inr (tp @ [pair_record (group_endpoints (board lv) (mods lv) (mod_nums lv) k ! 0)
                                          (group_endpoints (board lv) (mods lv) (mod_nums lv) k ! 1)])) \<and>
         pair_tunnels eps =
           Inr (map (\<lambda>k. pair_record (group_endpoints (board lv) (mods lv) (mod_nums lv) k ! 0)
                                       (group_endpoints (board lv) (mods lv) (mod_nums lv) k ! 1))
                  (filter (\<lambda>k. length (group_endpoints (board lv) (mods lv) (mod_nums lv) k) = 2)
                     (group_ids (board lv) (mods lv) (mod_nums lv)))) \<and>
         (\<forall>d. convert_data n lv = Inr d \<longrightarrow>
              length (tunnel_pairs d) =
                length (filter (\<lambda>k. length (group_endpoints (board lv) (mods lv) (mod_nums lv) k) = 2)
                          (group_ids (board lv) (mods lv) (mod_nums lv))))"
proof -
  let ?G = "group_endpoints (board lv) (mods lv) (mod_nums lv)"
  let ?ids = "group_ids (board lv) (mods lv) (mod_nums lv)"
  have keys: "sort (map fst eps) = ?ids" by (rule collected_groups(2)[OF assms])
  have ids: "\<forall>k. k \<in> set ?ids \<longleftrightarrow> ?G k \<noteq> []" by (simp add: group_ids_iff)
  have other: "pair_step eps k tp = Inr tp" if "k \<in> set ?ids" and "length (?G k) \<noteq> 2" for k tp
    using pair_step_collected[OF assms that(1), of tp] that(2) by simp
  have two: "pair_step eps k tp = Inr (tp @ [pair_record (?G k ! 0) (?G k ! 1)])"
    if len: "length (?G k) = 2" for k tp
  proof -
    from len have "?G k \<noteq> []" by auto
    then have "k \<in> set ?ids" by (simp add: group_ids_iff)
    from pair_step_collected[OF assms this, of tp] len show ?thesis by simp
  qed
  note all = pair_tunnels_collected[OF assms]
  have len: "length (tunnel_pairs d) = length (filter (\<lambda>k. length (?G k) = 2) ?ids)"
    if ok: "convert_data n lv = Inr d" for d
    by (simp add: convert_data_tunnel_pairs[OF ok])
  from keys ids other two all len show ?thesis by blast
qed

theorem tunnel_groups_paired_witness:
  "length (group_endpoints (board level_tunnel_groups) (mods level_tunnel_groups)
             (mod_nums level_tunnel_groups) 1) = 3 \<and>
   length (group_endpoints (board level_tunnel_groups) (mods level_tunnel_groups)
             (mod_nums level_tunnel_groups) 2) = 1 \<and>
   length (group_endpoints (board level_tunnel_groups) (mods level_tunnel_groups)
             (mod_nums level_tunnel_groups) 7) = 0 \<and>
   group_ids (board level_tunnel_groups) (mods level_tunnel_groups)
     (mod_nums level_tunnel_groups) = [0, 1, 2, 3] \<and>
   (\<exists>eps. collect_endpoints (board level_tunnel_groups) (mods level_tunnel_groups)
             (mod_nums level_tunnel_groups) = Inr eps \<and>
          pair_step eps 1 [] = Inr [] \<and> pair_step eps 2 [] = Inr [] \<and>
          pair_tunnels eps = Inr [(2, 2, ''RIGHT'', 2, 4, ''TOP''), (1, 1, ''RIGHT'', 2, 3, ''DOWN'')]) \<and>
   (\<exists>d. convert_data ''1-1'' level_tunnel_groups = Inr d \<and> length (tunnel_pairs d) = 2 \<and>
        tunnel_pairs d = [(2, 2, ''RIGHT'', 2, 4, ''TOP''), (1, 1, ''RIGHT'', 2, 3, ''DOWN'')])"
proof -
  let ?L = level_tunnel_groups
  let ?G = "group_endpoints (board ?L) (mods ?L) (mod_nums ?L)"
  let ?ids = "group_ids (board ?L) (mods ?L) (mod_nums ?L)"
  have l1: "length (?G 1) = 3" and l2: "length (?G 2) = 1" and l7: "length (?G 7) = 0"
    by code_simp+
  have ids: "?ids = [0, 1, 2, 3]" by code_simp
  have recs: "map (\<lambda>k. pair_record (?G k ! 0) (?G k ! 1)) (filter (\<lambda>k. length (?G k) = 2) ?ids)
      = [(2, 2, ''RIGHT'', 2, 4, ''TOP''), (1, 1, ''RIGHT'', 2, 3, ''DOWN'')]"
    by code_simp
  have "case collect_endpoints (board ?L) (mods ?L) (mod_nums ?L) of Inl e \<Rightarrow> False | Inr eps \<Rightarrow> True"
    by code_simp
  then obtain eps where eps: "collect_endpoints (board ?L) (mods ?L) (mod_nums ?L) = Inr eps"
    by (cases "collect_endpoints (board ?L) (mods ?L) (mod_nums ?L)") auto
  have "case convert_data ''1-1'' ?L of Inl e \<Rightarrow> False
        | Inr d \<Rightarrow> tunnel_pairs d = [(2, 2, ''RIGHT'', 2, 4, ''TOP''), (1, 1, ''RIGHT'', 2, 3, ''DOWN'')]"
    by code_simp
  then obtain d where d: "convert_data ''1-1'' ?L = Inr d"
    and tp: "tunnel_pairs d = [(2, 2, ''RIGHT'', 2, 4, ''TOP''), (1, 1, ''RIGHT'', 2, 3, ''DOWN'')]"
    by (cases "convert_data ''1-1'' ?L") auto
  note T = tunnel_groups_paired[OF eps, of "''1-1''"]
  have in1: "1 \<in> set ?ids" and in2: "2 \<in> set ?ids" by (simp_all add: ids)
  from T in1 l1 have s1: "pair_step eps 1 [] = Inr []" by simp
  from T in2 l2 have s2: "pair_step eps 2 [] = Inr []" by simp
  from T have "pair_tunnels eps =
      Inr (map (\<lambda>k. pair_record (?G k ! 0) (?G k ! 1)) (filter (\<lambda>k. length (?G k) = 2) ?ids))"
    by blast
  then have pt: "pair_tunnels eps = Inr [(2, 2, ''RIGHT'', 2, 4, ''TOP''), (1, 1, ''RIGHT'', 2, 3, ''DOWN'')]"
    by (simp only: recs)
  from tp have n: "length (tunnel_pairs d) = 2" by simp
  from l1 l2 l7 ids eps s1 s2 pt d tp n show ?thesis by blast
qed

section \<open>The failure of a level without target\<close>

text \<open>
  C2.  For every level, the conversion raises the error that names the level,
  \<^verbatim>\<open>ValueError("No target found for level NAME")\<close>, if and only if no cell of the
  board has code 3.  For a well-formed level this is the only failure: the conversion
  raises anything at all if and only if the board has no code 3.  When the board has no
  code 3, the loop of \<^verbatim>\<open>main\<close> writes no file for the level (the count of converted
  levels is unchanged, and the file system is as it was or as \<^verbatim>\<open>mkdir\<close> left it), it
  reports the error under the level's name when the conversion is reached, and it goes
  on with the levels that follow.
\<close>

theorem no_target_is_the_failure:
  "(convert_level n lv = Inl (ValueError (''No target found for level '' @ n)) \<longleftrightarrow>
      \<not> has_target (board lv)) \<and>
   (well_formed lv \<longrightarrow> ((\<exists>e. convert_level n lv = Inl e) \<longleftrightarrow> \<not> has_target (board lv))) \<and>
   (\<not> has_target (board lv) \<longrightarrow>
      converted (process_level ops a (n, lv) st) = converted st \<and>
      (fs (process_level ops a (n, lv) st) = fs st \<or>
       fs (process_level ops a (n, lv) st) = snd (mkdir ops (out_dir_of ops a n) (fs st))) \<and>
      (reaches_conversion ops a n st \<longrightarrow>
         process_level ops a (n, lv) st =
           st\<lparr>fs := snd (mkdir ops (out_dir_of ops a n) (fs st)),
              stderr := stderr st @ [(n, ValueError (''No target found for level '' @ n))]\<rparr>) \<and>
      run_levels ops a (xs @ (n, lv) # ys) st =
        run_levels ops a ys (process_level ops a (n, lv) (run_levels ops a xs st)))"
proof -
  let ?e = "ValueError (''No target found for level '' @ n)"
  have fails: "convert_level n lv = Inl ?e" if "\<not> has_target (board lv)"
    using that by (simp add: convert_level_Inl_iff convert_data_no_target)
  have only: "\<not> has_target (board lv)" if run: "convert_level n lv = Inl ?e"
  proof
    assume tg: "has_target (board lv)"
    from run have "convert_data n lv = Inl ?e" by (simp add: convert_level_Inl_iff)
    from convert_data_errors[OF this tg] show False by auto
  qed
  have wf: "(\<exists>e. convert_level n lv = Inl e) \<longleftrightarrow> \<not> has_target (board lv)" if w: "well_formed lv"
  proof
    assume "\<exists>e. convert_level n lv = Inl e"
    then obtain e where e: "convert_data n lv = Inl e" by (auto simp: convert_level_Inl_iff)
    show "\<not> has_target (board lv)"
    proof
      assume "has_target (board lv)"
      from convert_data_well_formed[OF w this, of n] e show False by simp
    qed
  next
    assume "\<not> has_target (board lv)"
    from fails[OF this] show "\<exists>e. convert_level n lv = Inl e" by blast
  qed
  have loop: "converted (process_level ops a (n, lv) st) = converted st \<and>
      (fs (process_level ops a (n, lv) st) = fs st \<or>
       fs (process_level ops a (n, lv) st) = snd (mkdir ops (out_dir_of ops a n) (fs st))) \<and>
      (reaches_conversion ops a n st \<longrightarrow>
         process_level ops a (n, lv) st =
           st\<lparr>fs := snd (mkdir ops (out_dir_of ops a n) (fs st)),
              stderr := stderr st @ [(n, ?e)]\<rparr>)"
    if nt: "\<not> has_target (board lv)"
    using process_level_failure_no_write[OF fails[OF nt], of ops a st]
      process_level_reached_failure[OF fails[OF nt], of ops a st]
    by blast
  from fails only wf loop run_levels_continues[of ops a xs "(n, lv)" ys st]
  show ?thesis by blast
qed

theorem no_target_is_the_failure_witness:
  "\<not> has_target (board level_no_target) \<and> well_formed level_no_target \<and>
   convert_level ''1-1'' level_no_target = Inl (ValueError ''No target found for level 1-1'') \<and>
   reaches_conversion ops_simple args_default ''1-1'' state_empty \<and>
   process_level ops_simple args_default (''1-1'', level_no_target) state_empty =
     state_empty\<lparr>stderr := [(''1-1'', ValueError ''No target found for level 1-1'')]\<rparr> \<and>
   has_target (board level_two_targets) \<and> well_formed level_two_targets \<and>
   (\<exists>content. convert_level ''1-2'' level_two_targets = Inr content \<and>
      run_levels ops_simple args_default
        [(''1-1'', level_no_target), (''1-2'', level_two_targets)] state_empty =
      state_empty\<lparr>fs := [''data/1/1-2.dzn'' \<mapsto> content], converted := 1,
         stderr := [(''1-1'', ValueError ''No target found for level 1-1'')]\<rparr>)"
proof -
  let ?A = level_no_target and ?B = level_two_targets
  let ?e = "ValueError ''No target found for level 1-1''"
  have nt: "\<not> has_target (board ?A)" by (simp add: has_target_def level_no_target_def)
  have wfA: "well_formed ?A"
    by (simp add: well_formed_def level_no_target_def bad_car_def known_direction_def)
  have tg: "has_target (board ?B)" by (simp add: has_target_def level_two_targets_def)
  have wfB: "well_formed ?B" by (simp add: well_formed_def level_two_targets_def)
  have reach: "reaches_conversion ops_simple args_default ''1-1'' state_empty"
    by (simp add: reaches_conversion_def args_default_def state_empty_def startswith_def
          prefix_mismatch_def ops_simple_def out_dir_of_def output_path_of_def)
  have mk: "snd (mkdir ops_simple (out_dir_of ops_simple args_default ''1-1'') (fs state_empty))
      = fs state_empty"
    by (simp add: ops_simple_def)
  have err0: "stderr state_empty = []" by (simp add: state_empty_def)
  note T = no_target_is_the_failure[of "''1-1''" ?A ops_simple args_default state_empty
      "[]" "[(''1-2'', ?B)]"]
  note L = T[THEN conjunct2, THEN conjunct2, THEN mp, OF nt]
  from T nt have run: "convert_level ''1-1'' ?A = Inl ?e" by simp
  from L[THEN conjunct2, THEN conjunct2, THEN conjunct1, THEN mp, OF reach]
  have step: "process_level ops_simple args_default (''1-1'', ?A) state_empty =
      state_empty\<lparr>stderr := [(''1-1'', ?e)]\<rparr>"
    by (simp add: mk err0)
  note L[THEN conjunct2, THEN conjunct2, THEN conjunct2]
  then have cont: "run_levels ops_simple args_default [(''1-1'', ?A), (''1-2'', ?B)] state_empty =
      process_level ops_simple args_default (''1-2'', ?B) (state_empty\<lparr>stderr := [(''1-1'', ?e)]\<rparr>)"
    by (simp add: run_levels_def step)
  from T wfB tg convert_data_well_formed[OF wfB tg, of "''1-2''"]
  obtain content where content: "convert_level ''1-2'' ?B = Inr content"
    by (auto simp: convert_level_Inr_iff)
  have reach2: "reaches_conversion ops_simple args_default ''1-2''
      (state_empty\<lparr>stderr := [(''1-1'', ?e)]\<rparr>)"
    by (simp add: reaches_conversion_def args_default_def state_empty_def startswith_def
          prefix_mismatch_def ops_simple_def out_dir_of_def output_path_of_def)
  have "process_level ops_simple args_default (''1-2'', ?B) (state_empty\<lparr>stderr := [(''1-1'', ?e)]\<rparr>)
      = state_empty\<lparr>fs := [''data/1/1-2.dzn'' \<mapsto> content], converted := 1,
         stderr := [(''1-1'', ?e)]\<rparr>"
    by (simp add: process_level_reached_success[OF content reach2])
       (simp add: ops_simple_def state_empty_def args_default_def output_path_of_def
          out_dir_of_def world_of_def)
  with cont have all: "run_levels ops_simple args_default [(''1-1'', ?A), (''1-2'', ?B)] state_empty =
      state_empty\<lparr>fs := [''data/1/1-2.dzn'' \<mapsto> content], converted := 1,
         stderr := [(''1-1'', ?e)]\<rparr>"
    by simp
  from nt wfA run reach step tg wfB content all show ?thesis by blast
qed

section \<open>The conversion as a function of the level\<close>



section \<open>Concrete levels\<close>

text \<open>
  C8.  Converting the level with the 1 by 1 board \<open>[[3]]\<close>, mods \<open>[[0]]\<close>, mod_nums
  \<open>[[0]]\<close>, one track and no car succeeds under every level name: the target is (1,1),
  the train and decoy lists are empty, the initial placements are exactly
  (1,1,STRAIGHT_RL), and the text is the twenty-one lines below, each ended by a newline.
\<close>

theorem single_target_cell_example:
  "convert_data level_name
     \<lparr>board = [[3]], mods = [[0]], mod_nums = [[0]], cars = [], tracks = 1\<rparr>
   = Inr \<lparr>W = 1, H = 1, max_tracks = 1, target = (1, 1),
          trains = [], decoys = [], init_pos = [(1, 1, ''STRAIGHT_RL'')],
          tunnel_pairs = [], gates = [], activations = [], dswitches = [], stations = []\<rparr>
   \<and>
   convert_level level_name
     \<lparr>board = [[3]], mods = [[0]], mod_nums = [[0]], cars = [], tracks = 1\<rparr>
   = Inr (join [CHR 0x0A]
       [''W=1;'', ''H=1;'', '''', ''MAX_TIME=W*H;'', ''MAX_TRACKS=1;'', '''',
        ''TARGET=(1,1);'', '''', ''TRAINS=[];'', ''DECOYS=[];'', '''',
        ''INIT_POS=['', ''(1,1,STRAIGHT_RL),'', ''];'', ''TUNNEL_PAIRS=[];'', '''',
        ''GATES=[];'', ''ACTIVATIONS=[];'', '''', ''DSWITCHES=[];'', ''STATIONS=[];'']
       @ [CHR 0x0A])"
  by code_simp

end
